theory Spec2Isabelle
  imports Main
begin

section \<open>Umbra Builder: tags, dependency closure, line tagging, compilation\<close>

text \<open>
  A shallow embedding of the classes \<^verbatim>\<open>Tag\<close>, \<^verbatim>\<open>LineTag\<close>, \<^verbatim>\<open>Line\<close> and \<^verbatim>\<open>Script\<close> of
  \<^verbatim>\<open>docs/s/js-max/builder/index.js\<close>.

  JavaScript objects are compared by identity. The \<^verbatim>\<open>Tag\<close> objects of a script live in the
  array \<^verbatim>\<open>script.tags\<close>, are never removed from it and never reordered, so the array is the
  store and a reference to a tag is its position in the array (a \<open>nat\<close>). The back
  reference \<^verbatim>\<open>tag.script\<close> is only ever used as \<^verbatim>\<open>tag.script.tags\<close>; the model passes
  that array explicitly.

  A value that is a string or \<^verbatim>\<open>undefined\<close> in the source (an array element read by
  index, a tag name) is a \<open>string option\<close>, \<open>None\<close> being \<^verbatim>\<open>undefined\<close>. On such values
  \<^verbatim>\<open>==\<close>, \<^verbatim>\<open>!=\<close>, the \<^verbatim>\<open>switch\<close> comparison and \<^verbatim>\<open>Array.prototype.includes\<close> all agree
  with HOL equality.
\<close>

subsection \<open>Tags and the registry\<close>

record Tag =
  name :: "string option"
  description :: string
  size_bytes :: int
  requiredTagNames :: "string option list"
  link :: string

text \<open>The constructor \<^verbatim>\<open>new Tag(name, script)\<close>.\<close>

definition new_Tag :: "string option \<Rightarrow> Tag" where
  "new_Tag n = \<lparr>name = n, description = [], size_bytes = 0, requiredTagNames = [], link = []\<rparr>"

text \<open>
  \<^verbatim>\<open>tags.find((tag) => tag.name == n)\<close>: the first tag of that name, as a reference, or
  \<open>None\<close> for \<^verbatim>\<open>undefined\<close>.
\<close>

fun find_tag :: "Tag list \<Rightarrow> string option \<Rightarrow> nat option" where
  "find_tag [] n = None"
| "find_tag (t # ts) n = (if name t = n then Some 0 else map_option Suc (find_tag ts n))"

subsection \<open>Tag.dependencies\<close>

text \<open>
  \<^verbatim>\<open>dependencies(includeSelf = true, tag = this, output = [])\<close>. The method has a
  \<^verbatim>\<open>while\<close> loop over the work list \<^verbatim>\<open>toAdd\<close> and, inside it, a \<^verbatim>\<open>for\<close> loop over the
  required names of the tag just added, which calls the method again on the same
  \<^verbatim>\<open>output\<close> array. The three are mutually recursive functions here; \<^verbatim>\<open>output\<close> is passed
  and returned.

  Every reference the source hands to the method is an element of \<^verbatim>\<open>script.tags\<close>. The
  model is total, so it also says what happens to a position outside the array: it is
  added to the output and has no required names.

  A required name that no tag carries is skipped (the branch \<open>None\<close> of
  \<open>dependencies_for\<close>); the \<^verbatim>\<open>console.warn\<close> of that branch is not part of the model, the
  method being used as a function of the registry.
\<close>

function dependencies :: "Tag list \<Rightarrow> bool \<Rightarrow> nat \<Rightarrow> nat list \<Rightarrow> nat list"
  and dependencies_while :: "Tag list \<Rightarrow> nat list \<Rightarrow> nat list \<Rightarrow> nat list"
  and dependencies_for :: "Tag list \<Rightarrow> string option list \<Rightarrow> nat list \<Rightarrow> nat list"
where
  "dependencies tags includeSelf tag output =
     (let toAdd = [tag] @ (case find_tag tags (Some ''REQUIRED'') of
                             Some requiredTag \<Rightarrow> [requiredTag] | None \<Rightarrow> []);
          output = dependencies_while tags toAdd output
      in if \<not> includeSelf then filter (\<lambda>outputTag. outputTag \<noteq> tag) output else output)"
| "dependencies_while tags [] output = output"
| "dependencies_while tags (addingTag # toAdd) output =
     (if addingTag \<in> set output then dependencies_while tags toAdd output
      else if addingTag < length tags then
        dependencies_while tags toAdd
          (dependencies_for tags (requiredTagNames (tags ! addingTag)) (output @ [addingTag]))
      else dependencies_while tags toAdd (output @ [addingTag]))"
| "dependencies_for tags [] output = output"
| "dependencies_for tags (requiredTagName # rest) output =
     (case find_tag tags requiredTagName of
        None \<Rightarrow> dependencies_for tags rest output
      | Some requiredTag \<Rightarrow>
          dependencies_for tags rest (dependencies tags True requiredTag output))"
  by pat_completeness auto

text \<open>
  The calls are nested: the result of one call is the \<^verbatim>\<open>output\<close> of the next. Termination
  therefore needs a fact about the results first, on the domain of the function: a call
  only ever adds to \<^verbatim>\<open>output\<close>.
\<close>

lemma dependencies_grow_dom:
  "dependencies_dependencies_while_dependencies_for_dom (Inl (ts, includeSelf, t, out)) \<Longrightarrow>
     includeSelf \<longrightarrow> set out \<subseteq> set (dependencies ts includeSelf t out)"
  "dependencies_dependencies_while_dependencies_for_dom (Inr (Inl (ts, toAdd, out))) \<Longrightarrow>
     set out \<subseteq> set (dependencies_while ts toAdd out)"
  "dependencies_dependencies_while_dependencies_for_dom (Inr (Inr (ts, names, out))) \<Longrightarrow>
     set out \<subseteq> set (dependencies_for ts names out)"
proof (induct rule: dependencies_dependencies_while_dependencies_for.pinduct)
  case (1 ts includeSelf t out)
  then show ?case by (cases includeSelf) (simp_all add: dependencies.psimps)
next
  case (2 ts out)
  then show ?case by (simp add: dependencies_while.psimps)
next
  case (3 ts addingTag toAdd out)
  then show ?case by (simp add: dependencies_while.psimps) blast
next
  case (4 ts out)
  then show ?case by (simp add: dependencies_for.psimps)
next
  case (5 ts requiredTagName rest out)
  then show ?case by (simp add: dependencies_for.psimps split: option.splits) blast
qed

lemma unvisited_mono:
  "set a \<subseteq> set b \<Longrightarrow> card ({..<n::nat} - set b) \<le> card ({..<n} - set a)"
  by (rule card_mono) auto

lemma unvisited_less:
  "a < n \<Longrightarrow> a \<notin> set out \<Longrightarrow> set (out @ [a]) \<subseteq> set b \<Longrightarrow>
     card ({..<n::nat} - set b) < card ({..<n} - set out)"
  by (rule psubset_card_mono) auto

text \<open>
  The measure: the number of tags of the registry not yet in \<^verbatim>\<open>output\<close>, then the kind of
  call, then the length of the list the loop still has to walk. Pushing a tag that was
  not in \<^verbatim>\<open>output\<close> is the only step that enters the \<^verbatim>\<open>for\<close> loop, and it decreases the
  first component, whatever the requirement graph looks like.
\<close>

termination dependencies
proof (relation "inv_image (less_than <*lex*> less_than <*lex*> less_than)
     (\<lambda>x. case x of
        Inl (ts, inc, t, out) \<Rightarrow> (card ({..<length ts} - set out), 1::nat, 0::nat)
      | Inr (Inl (ts, toAdd, out)) \<Rightarrow> (card ({..<length ts} - set out), 0, length toAdd)
      | Inr (Inr (ts, names, out)) \<Rightarrow> (card ({..<length ts} - set out), 2, length names))",
    goal_cases)
  case 1
  then show ?case by (intro wf_inv_image wf_lex_prod wf_less_than)
next
  case (2 ts includeSelf t out x)
  then show ?case by simp
next
  case (3 ts addingTag toAdd out)
  then show ?case by simp
next
  case (4 ts addingTag toAdd out)
  then show ?case
    using unvisited_less[of addingTag "length ts" out "out @ [addingTag]"] by simp
next
  case (5 ts addingTag toAdd out)
  then show ?case
    using dependencies_grow_dom(3)[of ts "requiredTagNames (ts ! addingTag)" "out @ [addingTag]"]
      unvisited_mono[of out
        "dependencies_for ts (requiredTagNames (ts ! addingTag)) (out @ [addingTag])" "length ts"]
    by auto
next
  case (6 ts addingTag toAdd out)
  then show ?case using unvisited_mono[of out "out @ [addingTag]" "length ts"] by auto
next
  case (7 ts requiredTagName rest out)
  then show ?case by simp
next
  case (8 ts requiredTagName rest out x2)
  then show ?case by simp
next
  case (9 ts requiredTagName rest out x2)
  then show ?case
    using dependencies_grow_dom(1)[of ts True x2 out]
      unvisited_mono[of out "dependencies ts True x2 out" "length ts"]
    by auto
qed

declare dependencies.simps [simp del] dependencies_while.simps(2) [simp del]
  dependencies_for.simps(2) [simp del]

lemmas dependencies_eval =
  dependencies.simps dependencies_while.simps(2) dependencies_for.simps(2) Let_def

subsection \<open>Strings and arrays of words\<close>

text \<open>
  \<^verbatim>\<open>s.split(/ +/)\<close> and \<^verbatim>\<open>s.split(/[\r\n]+/)\<close>: the pieces of \<open>s\<close> between maximal runs of
  separator characters. A run at the start or at the end leaves an empty piece there,
  and the empty string splits into one empty piece, as in JavaScript. \<open>word\<close> is the
  piece being read.
\<close>

function split_run :: "(char \<Rightarrow> bool) \<Rightarrow> string \<Rightarrow> string \<Rightarrow> string list" where
  "split_run sep word [] = [word]"
| "split_run sep word (c # cs) =
     (if sep c then word # split_run sep [] (dropWhile sep cs)
      else split_run sep (word @ [c]) cs)"
  by pat_completeness auto
termination split_run
  by (relation "measure (\<lambda>(sep, word, s). length s)")
    (auto simp: length_dropWhile_le less_Suc_eq_le)

definition split_spaces :: "string \<Rightarrow> string list" where
  "split_spaces s = split_run (\<lambda>c. c = CHR '' '') [] s"

definition split_lines :: "string \<Rightarrow> string list" where
  "split_lines s = split_run (\<lambda>c. c = CHR 0x0D \<or> c = CHR 0x0A) [] s"

text \<open>\<^verbatim>\<open>words.join(" ")\<close>.\<close>

fun join_spaces :: "string list \<Rightarrow> string" where
  "join_spaces [] = []"
| "join_spaces [w] = w"
| "join_spaces (w # ws) = w @ '' '' @ join_spaces ws"

text \<open>
  \<^verbatim>\<open>s.trim()\<close>. Strings are lists of 8-bit characters here, each a code unit below 256;
  of the white space and line terminators that \<^verbatim>\<open>trim\<close> removes, these are the tab, the
  line feed, the vertical tab, the form feed, the carriage return, the space and the
  no-break space.
\<close>

definition is_whitespace :: "char \<Rightarrow> bool" where
  "is_whitespace c =
     (c \<in> set [CHR 0x09, CHR 0x0A, CHR 0x0B, CHR 0x0C, CHR 0x0D, CHR 0x20, CHR 0xA0])"

definition trim :: "string \<Rightarrow> string" where
  "trim s = rev (dropWhile is_whitespace (rev (dropWhile is_whitespace s)))"

text \<open>\<^verbatim>\<open>xs[i]\<close> on an array: \<^verbatim>\<open>undefined\<close> beyond its end.\<close>

definition nth_opt :: "'a list \<Rightarrow> nat \<Rightarrow> 'a option" where
  "nth_opt xs i = (if i < length xs then Some (xs ! i) else None)"

text \<open>
  A string or \<^verbatim>\<open>undefined\<close> inside a template literal. A tag inside a template literal is
  rendered by \<^verbatim>\<open>Tag.toString\<close>, which returns its name.
\<close>

definition toString :: "string option \<Rightarrow> string" where
  "toString v = (case v of None \<Rightarrow> ''undefined'' | Some s \<Rightarrow> s)"


text \<open>The calls of \<^verbatim>\<open>console.log\<close>, \<^verbatim>\<open>console.warn\<close> and \<^verbatim>\<open>console.error\<close>, in order.\<close>

datatype console_call = Console_log string | Console_warn string | Console_error string

subsection \<open>LineTag, Line, Script\<close>

text \<open>
  \<^verbatim>\<open>LineTag.Mode\<close> is the object \<^verbatim>\<open>{AND: 0, OR: 1}\<close>, and \<^verbatim>\<open>LineTag.Mode[mode]\<close> reads it at
  the fourth word of a comment. Any word other than \<^verbatim>\<open>AND\<close> and \<^verbatim>\<open>OR\<close>, and a missing
  word, give a value that is not a number (\<^verbatim>\<open>undefined\<close>, or a member that the object
  inherits): \<open>None\<close> here. The only use of a mode is the test \<^verbatim>\<open>mode == LineTag.Mode["AND"]\<close>
  in \<^verbatim>\<open>compile\<close>, which is false for all of them.
\<close>

datatype Mode = AND | OR

definition Mode_lookup :: "string option \<Rightarrow> Mode option" where
  "Mode_lookup m = (if m = Some ''AND'' then Some AND else if m = Some ''OR'' then Some OR else None)"

text \<open>
  A \<^verbatim>\<open>LineTag\<close> holds a reference to its tag. The field \<^verbatim>\<open>tags\<close> of a \<^verbatim>\<open>Line\<close> is
  \<open>line_tags\<close> here, the field \<^verbatim>\<open>tags\<close> of a \<^verbatim>\<open>Script\<close> keeps its name.
\<close>

record LineTag =
  tag :: nat
  mode :: "Mode option"

record Line =
  code :: string
  comment :: string
  line_tags :: "LineTag list"

definition new_Line :: "string \<Rightarrow> string \<Rightarrow> Line" where
  "new_Line c m = \<lparr>code = c, comment = m, line_tags = []\<rparr>"

record Script =
  lines :: "Line list"
  tags :: "Tag list"

subsection \<open>The constructor of Script\<close>

text \<open>
  \<^verbatim>\<open>new Script(script)\<close> splits the text into lines and every trimmed line into words.
  \<open>Script_words\<close> is the loop over the words of one line, with the flags \<^verbatim>\<open>inComment\<close>
  and \<^verbatim>\<open>inMultilineComment\<close> and the strings \<^verbatim>\<open>code\<close> and \<^verbatim>\<open>comment\<close> built so far;
  \<open>Script_lines\<close> is the loop over the lines, through which \<^verbatim>\<open>inMultilineComment\<close>
  persists. The registry starts empty.
\<close>

definition startsWith :: "string \<Rightarrow> string \<Rightarrow> bool" where
  "startsWith s p = (take (length p) s = p)"

fun Script_words ::
  "bool \<Rightarrow> bool \<Rightarrow> string \<Rightarrow> string \<Rightarrow> string list \<Rightarrow> string \<times> string \<times> bool" where
  "Script_words inComment inMultilineComment c m [] = (c, m, inMultilineComment)"
| "Script_words inComment inMultilineComment c m (w # ws) =
     (let word = trim w;
          inComment' = (inComment \<or> startsWith word ''//'');
          inMultilineComment' =
            (if startsWith word ''//'' then inMultilineComment
             else if startsWith word ''/*'' then True
             else if startsWith word ''*/'' then False
             else inMultilineComment);
          word' = (if startsWith word ''//'' \<or> startsWith word ''/*'' \<or> startsWith word ''*/''
                   then drop 2 word else word)
      in if word' = [] then Script_words inComment' inMultilineComment' c m ws
         else if inComment' \<or> inMultilineComment'
           then Script_words inComment' inMultilineComment' c (m @ word' @ '' '') ws
           else Script_words inComment' inMultilineComment' (c @ word' @ '' '') m ws)"

fun Script_lines :: "bool \<Rightarrow> string list \<Rightarrow> Line list" where
  "Script_lines inMultilineComment [] = []"
| "Script_lines inMultilineComment (l # ls) =
     (let (c, m, inMultilineComment') =
            Script_words False inMultilineComment [] [] (split_spaces (trim l))
      in new_Line c m # Script_lines inMultilineComment' ls)"

definition new_Script :: "string \<Rightarrow> Script" where
  "new_Script script = \<lparr>lines = Script_lines False (split_lines script), tags = []\<rparr>"


subsection \<open>Script.getTags\<close>

text \<open>
  The body of the loop of \<^verbatim>\<open>getTags\<close> for one line, on the registry and the console.
  A line whose comment does not start with \<^verbatim>\<open>UTAGDEF\<close> changes nothing. Otherwise the tag
  named by the third word is found or created (\<open>find_or_create\<close>) before the property
  is looked at, so that a \<^verbatim>\<open>REQU\<close> directive looks its required tag up in a registry that
  already holds the subject tag.
\<close>

definition find_or_create :: "Tag list \<Rightarrow> string option \<Rightarrow> Tag list \<times> nat" where
  "find_or_create ts tagName =
     (case find_tag ts tagName of
        Some t \<Rightarrow> (ts, t)
      | None \<Rightarrow> (ts @ [new_Tag tagName], length ts))"

definition getTags_line :: "Line \<Rightarrow> Tag list \<times> console_call list \<Rightarrow> Tag list \<times> console_call list" where
  "getTags_line line st =
     (let (ts0, con) = st;
          comment_words = split_spaces (comment line);
          operator = nth_opt comment_words 0;
          property = nth_opt comment_words 1;
          tagName = nth_opt comment_words 2;
          data = trim (join_spaces (drop 3 comment_words))
      in if operator \<noteq> Some ''UTAGDEF'' then (ts0, con)
         else
           let (ts, t) = find_or_create ts0 tagName
           in if property = Some ''DESC'' then (ts[t := (ts ! t)\<lparr>description := data\<rparr>], con)
              else if property = Some ''REQU'' then
                (case find_tag ts (Some data) of
                   None \<Rightarrow>
                     (ts, con @ [Console_warn (toString (name (ts ! t)) @ '' is unable to require tag ''
                                   @ [CHR 0x22] @ data @ [CHR 0x22] @ ''.'')])
                 | Some requiredTag \<Rightarrow>
                     (ts[t := (ts ! t)\<lparr>requiredTagNames :=
                                requiredTagNames (ts ! t) @ [name (ts ! requiredTag)]\<rparr>], con))
              else if property = Some ''LINK'' then (ts[t := (ts ! t)\<lparr>link := data\<rparr>], con)
              else if property = Some ''SIZE'' then
                (ts, con @ [Console_log (''Skipping deprecated property '' @ [CHR 0x22]
                              @ toString property @ [CHR 0x22] @ ''.'')])
              else
                (ts, con @ [Console_warn (''Skipping unknown property '' @ [CHR 0x22]
                              @ toString property @ [CHR 0x22] @ ''.'')]))"

definition getTags :: "Script \<Rightarrow> console_call list \<Rightarrow> Script \<times> console_call list" where
  "getTags s con =
     (let (ts, con') = foldl (\<lambda>st line. getTags_line line st) (tags s, con) (lines s)
      in (s\<lparr>tags := ts\<rparr>, con'))"

subsection \<open>Script.loadExternal\<close>

text \<open>
  \<^verbatim>\<open>loadExternal\<close> returns a promise. Its executor runs at once: a loop over the tags that
  counts a tag without link as loaded and starts \<^verbatim>\<open>get(tag.link)\<close> for a tag with one.
  JavaScript runs one callback at a time, so the state between callbacks is a record:
  the script, the counter \<^verbatim>\<open>tagsLoaded\<close>, whether \<^verbatim>\<open>resolve(this)\<close> has been called, the tags
  whose fetch is in flight, and the console.

  \<open>tag_loaded\<close> is \<^verbatim>\<open>tagsLoaded++; if (tagsLoaded >= this.tags.length) resolve(this)\<close>, which
  the source has twice. \<open>loadExternal\<close> is the state when the executor has run.
  \<open>settle\<close> is what happens when the fetch of tag \<open>t\<close> settles: the \<^verbatim>\<open>then\<close> callback on
  the fetched text (\<open>Inr\<close>) or the \<^verbatim>\<open>catch\<close> callback on the error (\<open>Inl\<close>), and then the
  \<^verbatim>\<open>finally\<close> callback. The function \<^verbatim>\<open>get\<close> is not defined in the file; what it delivers for
  each link, and in which order the fetches settle, is the list of events given to
  \<open>settle_all\<close>, which accepts an event only for a fetch in flight.
\<close>

record Loading =
  script :: Script
  tagsLoaded :: nat
  resolved :: bool
  pending :: "nat list"
  console :: "console_call list"

definition tag_loaded :: "Loading \<Rightarrow> Loading" where
  "tag_loaded st =
     st\<lparr>tagsLoaded := Suc (tagsLoaded st),
        resolved := (resolved st \<or> length (tags (script st)) \<le> Suc (tagsLoaded st))\<rparr>"

fun loadExternal_for :: "Loading \<Rightarrow> nat list \<Rightarrow> Loading" where
  "loadExternal_for st [] = st"
| "loadExternal_for st (t # rest) =
     (if link (tags (script st) ! t) = [] then loadExternal_for (tag_loaded st) rest
      else loadExternal_for (st\<lparr>pending := pending st @ [t]\<rparr>) rest)"

definition loadExternal :: "Script \<Rightarrow> console_call list \<Rightarrow> Loading" where
  "loadExternal s con =
     loadExternal_for \<lparr>script = s, tagsLoaded = 0, resolved = False, pending = [], console = con\<rparr>
       [0..<length (tags s)]"

definition settle :: "Loading \<Rightarrow> nat \<Rightarrow> string + string \<Rightarrow> Loading" where
  "settle st t outcome =
     (let s = script st;
          st' = (case outcome of
                   Inr fetched \<Rightarrow>
                     st\<lparr>script := s\<lparr>lines :=
                          lines s
                          @ [new_Line [] (''UTAGSET START '' @ toString (name (tags s ! t)))]
                          @ lines (new_Script fetched)
                          @ [new_Line [] (''UTAGSET END '' @ toString (name (tags s ! t)))]\<rparr>\<rparr>
                 | Inl err \<Rightarrow>
                     st\<lparr>console := console st @
                          [Console_error (''Error getting script linked by tag '' @ [CHR 0x22]
                             @ toString (name (tags s ! t)) @ [CHR 0x22] @ '' from URL ''
                             @ link (tags s ! t) @ '': '' @ err)]\<rparr>)
      in tag_loaded (st'\<lparr>pending := remove1 t (pending st')\<rparr>))"

fun settle_all :: "Loading \<Rightarrow> (nat \<times> (string + string)) list \<Rightarrow> Loading option" where
  "settle_all st [] = Some st"
| "settle_all st ((t, outcome) # rest) =
     (if t \<in> set (pending st) then settle_all (settle st t outcome) rest else None)"

subsection \<open>Script.tagLines\<close>

text \<open>
  The last statement of the loop body, \<^verbatim>\<open>for (const lineTag of lineTags.concat(multilineTags))
  line.tags.push(lineTag)\<close>, is \<open>attach\<close>. The body of the loop for one line is
  \<open>tagLines_line\<close>: it returns the line, the open blocks \<^verbatim>\<open>multilineTags\<close> and the
  console. When the comment starts with \<^verbatim>\<open>UTAGSET\<close> and its tag is not in the registry, the
  source logs an error and executes \<^verbatim>\<open>continue\<close>: the rest of the body, \<open>attach\<close> included,
  is skipped for that line.
\<close>

definition attach :: "Line \<Rightarrow> LineTag list \<Rightarrow> LineTag list \<Rightarrow> Line" where
  "attach line lineTags multilineTags =
     line\<lparr>line_tags := line_tags line @ (lineTags @ multilineTags)\<rparr>"

definition tagLines_line ::
  "Tag list \<Rightarrow> Line \<Rightarrow> LineTag list \<times> console_call list \<Rightarrow> Line \<times> LineTag list \<times> console_call list" where
  "tagLines_line ts line st =
     (let (multilineTags, con) = st;
          comment_words = split_spaces (comment line);
          operator = nth_opt comment_words 0;
          property = nth_opt comment_words 1;
          tagName = nth_opt comment_words 2;
          mode_word = nth_opt comment_words 3
      in if operator = Some ''UTAGSET'' then
           (case find_tag ts tagName of
              None \<Rightarrow>
                (line, multilineTags,
                 con @ [Console_error (''Failed to set line tag '' @ [CHR 0x22]
                          @ toString tagName @ [CHR 0x22] @ ''.'')])
            | Some t \<Rightarrow>
                let lineTag = \<lparr>tag = t, mode = Mode_lookup mode_word\<rparr>
                in if property = Some ''START'' then
                     (attach line [] (multilineTags @ [lineTag]), multilineTags @ [lineTag], con)
                   else if property = Some ''END'' then
                     (let remaining = filter (\<lambda>lt. name (ts ! tag lt) \<noteq> name (ts ! t)) multilineTags
                      in (attach line [lineTag] remaining, remaining, con))
                   else if property = Some ''LINE'' then
                     (attach line [lineTag] multilineTags, multilineTags, con)
                   else
                     (attach line [] multilineTags, multilineTags,
                      con @ [Console_warn (''Skipping unknown property '' @ [CHR 0x22]
                               @ toString property @ [CHR 0x22] @ ''.'')]))
         else (attach line [] multilineTags, multilineTags, con))"

fun tagLines_loop ::
  "Tag list \<Rightarrow> Line list \<Rightarrow> LineTag list \<Rightarrow> console_call list \<Rightarrow> Line list \<times> console_call list" where
  "tagLines_loop ts [] multilineTags con = ([], con)"
| "tagLines_loop ts (line # rest) multilineTags con =
     (let (line', multilineTags', con') = tagLines_line ts line (multilineTags, con);
          (rest', con'') = tagLines_loop ts rest multilineTags' con'
      in (line' # rest', con''))"

definition tagLines :: "Script \<Rightarrow> console_call list \<Rightarrow> Script \<times> console_call list" where
  "tagLines s con =
     (let (ls, con') = tagLines_loop (tags s) (lines s) [] con in (s\<lparr>lines := ls\<rparr>, con'))"

subsection \<open>Script.compile\<close>

text \<open>
  \<open>includeLine_loop\<close> is the inner loop of \<^verbatim>\<open>compile\<close> over \<^verbatim>\<open>line.tags\<close>, with the current
  value of \<^verbatim>\<open>includeLine\<close>; the \<^verbatim>\<open>break\<close> of the source is the branch that returns
  \<open>False\<close> without looking at the rest. \<open>render_line\<close> is the template literal appended to
  \<^verbatim>\<open>output\<close>, and \<open>compile_lines\<close> the outer loop, which starts every line with
  \<^verbatim>\<open>includeLine = false\<close>.

  \<^verbatim>\<open>terser.minify\<close> and \<^verbatim>\<open>prettier.format\<close> are libraries: \<open>minify\<close> stands for
  \<^verbatim>\<open>(await terser.minify(output)).code\<close> and \<open>format\<close> for the call of \<^verbatim>\<open>prettier.format\<close>,
  each returning its text or failing (\<open>Inl\<close>), in which case \<^verbatim>\<open>compile\<close> fails with it.
  The parameters \<^verbatim>\<open>uglified\<close> and \<^verbatim>\<open>beautified\<close> default to \<^verbatim>\<open>true\<close> and \<^verbatim>\<open>false\<close> in the
  source; the model takes them explicitly.
\<close>

fun includeLine_loop :: "Tag list \<Rightarrow> string option list \<Rightarrow> bool \<Rightarrow> LineTag list \<Rightarrow> bool" where
  "includeLine_loop ts includedTagNames includeLine [] = includeLine"
| "includeLine_loop ts includedTagNames includeLine (lineTag # rest) =
     (if mode lineTag = Some AND then
        (if name (ts ! tag lineTag) \<in> set includedTagNames
         then includeLine_loop ts includedTagNames True rest
         else False)
      else
        (if name (ts ! tag lineTag) \<in> set includedTagNames
         then includeLine_loop ts includedTagNames True rest
         else includeLine_loop ts includedTagNames includeLine rest))"

definition render_line :: "bool \<Rightarrow> Line \<Rightarrow> string" where
  "render_line uglified line =
     code line
     @ (if \<not> uglified \<and> comment line \<noteq> []
        then (if code line \<noteq> [] then '' '' else []) @ ''// '' @ comment line
        else [])
     @ [CHR 0x0A]"

definition compile_lines :: "Script \<Rightarrow> string option list \<Rightarrow> bool \<Rightarrow> string" where
  "compile_lines s includedTagNames uglified =
     foldl (\<lambda>output line.
              if includeLine_loop (tags s) includedTagNames False (line_tags line)
              then output @ render_line uglified line else output)
       [] (lines s)"

definition compile ::
  "(string \<Rightarrow> 'e + string) \<Rightarrow> (string \<Rightarrow> 'e + string) \<Rightarrow> Script \<Rightarrow> string option list \<Rightarrow> bool \<Rightarrow> bool
     \<Rightarrow> 'e + string" where
  "compile minify format s includedTagNames uglified beautified =
     (case (if uglified then minify (compile_lines s includedTagNames uglified)
            else Inr (compile_lines s includedTagNames uglified)) of
        Inl e \<Rightarrow> Inl e
      | Inr output \<Rightarrow> if beautified then format output else Inr output)"

subsection \<open>Script.measureTags\<close>

text \<open>
  The body of the loop of \<^verbatim>\<open>measureTags\<close> for the tag at position \<open>t\<close>. Both calls are
  \<^verbatim>\<open>this.compile(names)\<close> with one argument, that is with \<^verbatim>\<open>uglified = true\<close> and
  \<^verbatim>\<open>beautified = false\<close>. A failing compilation ends the whole method.
\<close>

definition measureTags_tag ::
  "(string \<Rightarrow> 'e + string) \<Rightarrow> (string \<Rightarrow> 'e + string) \<Rightarrow> Script \<Rightarrow> nat \<Rightarrow> 'e + Script" where
  "measureTags_tag minify format s t =
     (let inclusiveTagNames = map (\<lambda>d. name (tags s ! d)) (dependencies (tags s) True t [])
      in case compile minify format s inclusiveTagNames True False of
           Inl e \<Rightarrow> Inl e
         | Inr inclusive \<Rightarrow>
             (let exclusiveTagNames = map (\<lambda>d. name (tags s ! d)) (dependencies (tags s) False t [])
              in (case compile minify format s exclusiveTagNames True False of
                    Inl e \<Rightarrow> Inl e
                  | Inr exclusive \<Rightarrow>
                      Inr (s\<lparr>tags := (tags s)[t := (tags s ! t)
                             \<lparr>size_bytes := int (length inclusive) - int (length exclusive)\<rparr>]\<rparr>))))"

fun measureTags_loop ::
  "(string \<Rightarrow> 'e + string) \<Rightarrow> (string \<Rightarrow> 'e + string) \<Rightarrow> Script \<Rightarrow> nat list \<Rightarrow> 'e + Script" where
  "measureTags_loop minify format s [] = Inr s"
| "measureTags_loop minify format s (t # rest) =
     (case measureTags_tag minify format s t of
        Inl e \<Rightarrow> Inl e
      | Inr s' \<Rightarrow> measureTags_loop minify format s' rest)"

definition measureTags ::
  "(string \<Rightarrow> 'e + string) \<Rightarrow> (string \<Rightarrow> 'e + string) \<Rightarrow> Script \<Rightarrow> 'e + Script" where
  "measureTags minify format s = measureTags_loop minify format s [0..<length (tags s)]"

subsection \<open>Example registries and scripts\<close>

text \<open>Two tags that require each other, and a required name that no tag carries.\<close>

definition cycle_registry :: "Tag list" where
  "cycle_registry =
     [(new_Tag (Some ''A''))\<lparr>requiredTagNames := [Some ''B'', Some ''MISSING'']\<rparr>,
      (new_Tag (Some ''B''))\<lparr>requiredTagNames := [Some ''A'']\<rparr>,
      new_Tag (Some ''REQUIRED'')]"

text \<open>
  The example scripts are given as source text and built the way the page builds them:
  the constructor, then \<^verbatim>\<open>getTags\<close>, then (where the example is about compilation)
  \<^verbatim>\<open>tagLines\<close>.

  A line of code without tag and a line tagged \<^verbatim>\<open>(EXTRA, OR)\<close>:
\<close>

definition untagged_source :: string where
  "untagged_source =
     ''x=1;'' @ [CHR 0x0A] @
     ''// UTAGDEF DESC EXTRA more'' @ [CHR 0x0A] @
     ''y=2; // UTAGSET LINE EXTRA OR''"

definition untagged_script :: Script where
  "untagged_script = fst (tagLines (fst (getTags (new_Script untagged_source) [])) [])"

text \<open>One tag and one line of code marked with it:\<close>

definition one_tag_source :: string where
  "one_tag_source =
     ''// UTAGDEF DESC T thing'' @ [CHR 0x0A] @
     ''x=1; // UTAGSET LINE T OR''"

definition one_tag_script :: Script where
  "one_tag_script = fst (tagLines (fst (getTags (new_Script one_tag_source) [])) [])"

text \<open>
  A block of tag \<^verbatim>\<open>X\<close> that holds a line marked with a tag that is not defined and a line
  with an unknown property:
\<close>

definition unknown_tag_source :: string where
  "unknown_tag_source =
     ''// UTAGDEF DESC X block'' @ [CHR 0x0A] @
     ''// UTAGSET START X OR'' @ [CHR 0x0A] @
     ''y=2; // UTAGSET LINE NOPE OR'' @ [CHR 0x0A] @
     ''z=3; // UTAGSET BOGUS X OR'' @ [CHR 0x0A] @
     ''// UTAGSET END X OR''"

definition unknown_tag_script :: Script where
  "unknown_tag_script = fst (getTags (new_Script unknown_tag_source) [])"

text \<open>A script without any \<^verbatim>\<open>UTAGDEF\<close> directive, so without tags:\<close>

definition no_tag_script :: Script where
  "no_tag_script = fst (getTags (new_Script ''x = 1;'') [])"

text \<open>
  A line marked \<^verbatim>\<open>(A, OR)\<close> inside a block of \<^verbatim>\<open>(B, AND)\<close>: its tags are \<^verbatim>\<open>(A, OR)\<close> then
  \<^verbatim>\<open>(B, AND)\<close>, the line's own tag first.
\<close>

definition veto_source :: string where
  "veto_source =
     ''// UTAGDEF DESC A a'' @ [CHR 0x0A] @
     ''// UTAGDEF DESC B b'' @ [CHR 0x0A] @
     ''// UTAGSET START B AND'' @ [CHR 0x0A] @
     ''x=1; // UTAGSET LINE A OR'' @ [CHR 0x0A] @
     ''// UTAGSET END B AND''"

definition veto_script :: Script where
  "veto_script = fst (tagLines (fst (getTags (new_Script veto_source) [])) [])"

text \<open>A block of tag \<^verbatim>\<open>X\<close> whose delimiter lines carry code:\<close>

definition block_source :: string where
  "block_source =
     ''// UTAGDEF DESC X block'' @ [CHR 0x0A] @
     ''a=0; // UTAGSET START X OR'' @ [CHR 0x0A] @
     ''b=1;'' @ [CHR 0x0A] @
     ''c=2; // UTAGSET END X OR''"

definition block_script :: Script where
  "block_script = fst (getTags (new_Script block_source) [])"

text \<open>
  The same kind of block alone: the three lines and nothing else, so no directive
  defines the tag \<^verbatim>\<open>X\<close>.
\<close>

definition bare_block_source :: string where
  "bare_block_source =
     ''// UTAGSET START X OR'' @ [CHR 0x0A] @
     ''b=1;'' @ [CHR 0x0A] @
     ''// UTAGSET END X OR''"

definition bare_block_script :: Script where
  "bare_block_script = fst (getTags (new_Script bare_block_source) [])"

subsection \<open>The example scripts, parsed\<close>

lemmas parse_eval =
  new_Script_def split_lines_def split_spaces_def trim_def is_whitespace_def startsWith_def

lemmas getTags_eval =
  getTags_def getTags_line_def new_Line_def split_spaces_def nth_opt_def find_or_create_def
  new_Tag_def trim_def is_whitespace_def toString_def Let_def

lemmas tagLines_eval =
  tagLines_def tagLines_line_def new_Line_def new_Tag_def split_spaces_def nth_opt_def
  attach_def Mode_lookup_def toString_def Let_def

lemma untagged_script_parsed:
  "untagged_script =
     \<lparr>lines = [\<lparr>code = ''x=1; '', comment = [], line_tags = []\<rparr>,
               \<lparr>code = [], comment = ''UTAGDEF DESC EXTRA more '', line_tags = []\<rparr>,
               \<lparr>code = ''y=2; '', comment = ''UTAGSET LINE EXTRA OR '',
                  line_tags = [\<lparr>tag = 0, mode = Some OR\<rparr>]\<rparr>],
      tags = [(new_Tag (Some ''EXTRA''))\<lparr>description := ''more''\<rparr>]\<rparr>"
proof -
  have 1: "new_Script untagged_source =
     \<lparr>lines = [new_Line ''x=1; '' [],
               new_Line [] ''UTAGDEF DESC EXTRA more '',
               new_Line ''y=2; '' ''UTAGSET LINE EXTRA OR ''],
      tags = []\<rparr>"
    by (simp add: untagged_source_def parse_eval)
  have 2: "fst (getTags (new_Script untagged_source) []) =
     \<lparr>lines = [new_Line ''x=1; '' [],
               new_Line [] ''UTAGDEF DESC EXTRA more '',
               new_Line ''y=2; '' ''UTAGSET LINE EXTRA OR ''],
      tags = [(new_Tag (Some ''EXTRA''))\<lparr>description := ''more''\<rparr>]\<rparr>"
    unfolding 1 by (simp add: getTags_eval)
  show ?thesis
    unfolding untagged_script_def 2 by (simp add: tagLines_eval)
qed

lemma one_tag_script_parsed:
  "one_tag_script =
     \<lparr>lines = [\<lparr>code = [], comment = ''UTAGDEF DESC T thing '', line_tags = []\<rparr>,
               \<lparr>code = ''x=1; '', comment = ''UTAGSET LINE T OR '',
                  line_tags = [\<lparr>tag = 0, mode = Some OR\<rparr>]\<rparr>],
      tags = [(new_Tag (Some ''T''))\<lparr>description := ''thing''\<rparr>]\<rparr>"
proof -
  have 1: "new_Script one_tag_source =
     \<lparr>lines = [new_Line [] ''UTAGDEF DESC T thing '',
               new_Line ''x=1; '' ''UTAGSET LINE T OR ''],
      tags = []\<rparr>"
    by (simp add: one_tag_source_def parse_eval)
  have 2: "fst (getTags (new_Script one_tag_source) []) =
     \<lparr>lines = [new_Line [] ''UTAGDEF DESC T thing '',
               new_Line ''x=1; '' ''UTAGSET LINE T OR ''],
      tags = [(new_Tag (Some ''T''))\<lparr>description := ''thing''\<rparr>]\<rparr>"
    unfolding 1 by (simp add: getTags_eval)
  show ?thesis
    unfolding one_tag_script_def 2 by (simp add: tagLines_eval)
qed

lemma unknown_tag_script_parsed:
  "unknown_tag_script =
     \<lparr>lines = [new_Line [] ''UTAGDEF DESC X block '',
               new_Line [] ''UTAGSET START X OR '',
               new_Line ''y=2; '' ''UTAGSET LINE NOPE OR '',
               new_Line ''z=3; '' ''UTAGSET BOGUS X OR '',
               new_Line [] ''UTAGSET END X OR ''],
      tags = [(new_Tag (Some ''X''))\<lparr>description := ''block''\<rparr>]\<rparr>"
proof -
  have 1: "new_Script unknown_tag_source =
     \<lparr>lines = [new_Line [] ''UTAGDEF DESC X block '',
               new_Line [] ''UTAGSET START X OR '',
               new_Line ''y=2; '' ''UTAGSET LINE NOPE OR '',
               new_Line ''z=3; '' ''UTAGSET BOGUS X OR '',
               new_Line [] ''UTAGSET END X OR ''],
      tags = []\<rparr>"
    by (simp add: unknown_tag_source_def parse_eval)
  show ?thesis
    unfolding unknown_tag_script_def 1 by (simp add: getTags_eval)
qed

lemma veto_script_parsed:
  "veto_script =
     \<lparr>lines = [\<lparr>code = [], comment = ''UTAGDEF DESC A a '', line_tags = []\<rparr>,
               \<lparr>code = [], comment = ''UTAGDEF DESC B b '', line_tags = []\<rparr>,
               \<lparr>code = [], comment = ''UTAGSET START B AND '',
                  line_tags = [\<lparr>tag = 1, mode = Some AND\<rparr>]\<rparr>,
               \<lparr>code = ''x=1; '', comment = ''UTAGSET LINE A OR '',
                  line_tags = [\<lparr>tag = 0, mode = Some OR\<rparr>, \<lparr>tag = 1, mode = Some AND\<rparr>]\<rparr>,
               \<lparr>code = [], comment = ''UTAGSET END B AND '',
                  line_tags = [\<lparr>tag = 1, mode = Some AND\<rparr>]\<rparr>],
      tags = [(new_Tag (Some ''A''))\<lparr>description := ''a''\<rparr>,
              (new_Tag (Some ''B''))\<lparr>description := ''b''\<rparr>]\<rparr>"
proof -
  have 1: "new_Script veto_source =
     \<lparr>lines = [new_Line [] ''UTAGDEF DESC A a '',
               new_Line [] ''UTAGDEF DESC B b '',
               new_Line [] ''UTAGSET START B AND '',
               new_Line ''x=1; '' ''UTAGSET LINE A OR '',
               new_Line [] ''UTAGSET END B AND ''],
      tags = []\<rparr>"
    by (simp add: veto_source_def parse_eval)
  have 2: "fst (getTags (new_Script veto_source) []) =
     \<lparr>lines = [new_Line [] ''UTAGDEF DESC A a '',
               new_Line [] ''UTAGDEF DESC B b '',
               new_Line [] ''UTAGSET START B AND '',
               new_Line ''x=1; '' ''UTAGSET LINE A OR '',
               new_Line [] ''UTAGSET END B AND ''],
      tags = [(new_Tag (Some ''A''))\<lparr>description := ''a''\<rparr>,
              (new_Tag (Some ''B''))\<lparr>description := ''b''\<rparr>]\<rparr>"
    unfolding 1 by (simp add: getTags_eval)
  show ?thesis
    unfolding veto_script_def 2 by (simp add: tagLines_eval)
qed

lemma no_tag_script_parsed: "no_tag_script = \<lparr>lines = [new_Line ''x = 1; '' []], tags = []\<rparr>"
proof -
  have 1: "new_Script ''x = 1;'' = \<lparr>lines = [new_Line ''x = 1; '' []], tags = []\<rparr>"
    by (simp add: parse_eval)
  show ?thesis
    unfolding no_tag_script_def 1 by (simp add: getTags_eval)
qed

lemma bare_block_script_parsed:
  "bare_block_script =
     \<lparr>lines = [new_Line [] ''UTAGSET START X OR '',
               new_Line ''b=1; '' [],
               new_Line [] ''UTAGSET END X OR ''],
      tags = []\<rparr>"
proof -
  have 1: "new_Script bare_block_source =
     \<lparr>lines = [new_Line [] ''UTAGSET START X OR '',
               new_Line ''b=1; '' [],
               new_Line [] ''UTAGSET END X OR ''],
      tags = []\<rparr>"
    by (simp add: bare_block_source_def parse_eval)
  show ?thesis
    unfolding bare_block_script_def 1 by (simp add: getTags_eval)
qed

lemma block_script_parsed:
  "block_script =
     \<lparr>lines = [new_Line [] ''UTAGDEF DESC X block '',
               new_Line ''a=0; '' ''UTAGSET START X OR '',
               new_Line ''b=1; '' [],
               new_Line ''c=2; '' ''UTAGSET END X OR ''],
      tags = [(new_Tag (Some ''X''))\<lparr>description := ''block''\<rparr>]\<rparr>"
proof -
  have "new_Script block_source =
     \<lparr>lines = [new_Line [] ''UTAGDEF DESC X block '',
               new_Line ''a=0; '' ''UTAGSET START X OR '',
               new_Line ''b=1; '' [],
               new_Line ''c=2; '' ''UTAGSET END X OR ''],
      tags = []\<rparr>"
    by (simp add: block_source_def new_Script_def split_lines_def split_spaces_def trim_def
      is_whitespace_def startsWith_def)
  then show ?thesis
    unfolding block_script_def
    by (simp add: getTags_def getTags_line_def new_Line_def split_spaces_def nth_opt_def
      find_or_create_def new_Tag_def trim_def is_whitespace_def Let_def)
qed

subsection \<open>Facts about the registry lookup and the closure\<close>

lemma find_tag_Some: "find_tag ts n = Some i \<Longrightarrow> i < length ts \<and> name (ts ! i) = n"
  by (induction ts arbitrary: i) (auto split: if_splits)

lemma find_tag_None: "find_tag ts n = None \<Longrightarrow> i < length ts \<Longrightarrow> name (ts ! i) \<noteq> n"
  by (induction ts arbitrary: i) (auto split: if_splits simp: nth_Cons split: nat.splits)

lemma dependencies_grow:
  "includeSelf \<longrightarrow> set out \<subseteq> set (dependencies ts includeSelf t out)"
  "set out \<subseteq> set (dependencies_while ts toAdd out)"
  "set out \<subseteq> set (dependencies_for ts names out)"
proof (induct ts includeSelf t out and ts toAdd out and ts names out
        rule: dependencies_dependencies_while_dependencies_for.induct)
  case (1 ts includeSelf t out)
  then show ?case by (simp add: dependencies.simps Let_def)
next
  case (2 ts out)
  then show ?case by simp
next
  case (3 ts addingTag toAdd out)
  then show ?case by (simp add: dependencies_while.simps(2)) blast
next
  case (4 ts out)
  then show ?case by simp
next
  case (5 ts requiredTagName rest out)
  then show ?case by (simp add: dependencies_for.simps(2) split: option.splits) blast
qed

lemma dependencies_distinct_all:
  "distinct out \<longrightarrow> distinct (dependencies ts includeSelf t out)"
  "distinct out \<longrightarrow> distinct (dependencies_while ts toAdd out)"
  "distinct out \<longrightarrow> distinct (dependencies_for ts names out)"
proof (induct ts includeSelf t out and ts toAdd out and ts names out
        rule: dependencies_dependencies_while_dependencies_for.induct)
  case (1 ts includeSelf t out)
  then show ?case by (simp add: dependencies.simps Let_def)
next
  case (2 ts out)
  then show ?case by simp
next
  case (3 ts addingTag toAdd out)
  then show ?case by (simp add: dependencies_while.simps(2))
next
  case (4 ts out)
  then show ?case by simp
next
  case (5 ts requiredTagName rest out)
  then show ?case by (simp add: dependencies_for.simps(2) split: option.splits)
qed

text \<open>Every element of the work list ends up in the output of the \<^verbatim>\<open>while\<close> loop.\<close>

lemma dependencies_while_toAdd:
  "set toAdd \<subseteq> set (dependencies_while ts toAdd out)"
proof (induction toAdd arbitrary: out)
  case Nil
  then show ?case by simp
next
  case (Cons a toAdd)
  have g: "set o1 \<subseteq> set (dependencies_while ts toAdd o1)" for o1
    by (rule dependencies_grow(2))
  have f: "set o1 \<subseteq> set (dependencies_for ts ns o1)" for o1 ns
    by (rule dependencies_grow(3))
  have a: "a \<in> set (dependencies_while ts (a # toAdd) out)"
    using g[of out] g[of "out @ [a]"]
      g[of "dependencies_for ts (requiredTagNames (ts ! a)) (out @ [a])"]
      f[of "out @ [a]" "requiredTagNames (ts ! a)"]
    by (auto simp: dependencies_while.simps(2))
  have r: "set toAdd \<subseteq> set (dependencies_while ts (a # toAdd) out)"
    using Cons.IH by (simp add: dependencies_while.simps(2))
  show ?case using a r by simp
qed

text \<open>
  The output stays inside any set of references that holds the registry's positions,
  the root and the initial output.
\<close>

lemma dependencies_range_all:
  "{..<length ts} \<subseteq> S \<longrightarrow> t \<in> S \<longrightarrow> set out \<subseteq> S \<longrightarrow>
     set (dependencies ts includeSelf t out) \<subseteq> S"
  "{..<length ts} \<subseteq> S \<longrightarrow> set toAdd \<subseteq> S \<longrightarrow> set out \<subseteq> S \<longrightarrow>
     set (dependencies_while ts toAdd out) \<subseteq> S"
  "{..<length ts} \<subseteq> S \<longrightarrow> set out \<subseteq> S \<longrightarrow> set (dependencies_for ts names out) \<subseteq> S"
proof (induct ts includeSelf t out and ts toAdd out and ts names out
        rule: dependencies_dependencies_while_dependencies_for.induct)
  case (1 ts includeSelf t out)
  then show ?case
    by (auto simp: dependencies.simps Let_def split: option.splits dest: find_tag_Some)
next
  case (2 ts out)
  then show ?case by simp
next
  case (3 ts addingTag toAdd out)
  then show ?case by (simp add: dependencies_while.simps(2))
next
  case (4 ts out)
  then show ?case by simp
next
  case (5 ts requiredTagName rest out)
  show ?case
  proof (cases "find_tag ts requiredTagName")
    case None
    with 5 show ?thesis by (simp add: dependencies_for.simps(2))
  next
    case (Some x2)
    then have "x2 < length ts" by (simp add: find_tag_Some)
    then have "{..<length ts} \<subseteq> S \<longrightarrow> x2 \<in> S" by auto
    with 5(2,3)[OF Some] Some show ?thesis by (simp add: dependencies_for.simps(2))
  qed
qed

lemma dependencies_in_registry:
  "t < length ts \<Longrightarrow> d \<in> set (dependencies ts includeSelf t []) \<Longrightarrow> d < length ts"
  using dependencies_range_all(1)[of ts "{..<length ts}" t "[]" includeSelf] by auto

lemma count_list_distinct: "distinct xs \<Longrightarrow> x \<in> set xs \<Longrightarrow> count_list xs x = Suc 0"
  by (induction xs) auto

lemma dependencies_root: "t \<in> set (dependencies ts True t out)"
  using dependencies_while_toAdd[of "t # (case find_tag ts (Some ''REQUIRED'') of
      Some requiredTag \<Rightarrow> [requiredTag] | None \<Rightarrow> [])" ts out]
  by (simp add: dependencies.simps Let_def)

lemma dependencies_no_root: "t \<notin> set (dependencies ts False t out)"
  by (simp add: dependencies.simps Let_def)

lemma dependencies_REQUIRED:
  assumes "find_tag ts (Some ''REQUIRED'') = Some r" and "includeSelf \<or> r \<noteq> t"
  shows "r \<in> set (dependencies ts includeSelf t out)"
  using assms dependencies_while_toAdd[of "[t, r]" ts out]
  by (auto simp: dependencies.simps Let_def)

lemma dependencies_cycle:
  "dependencies cycle_registry True 0 [] = [0, 1, 2]"
  "dependencies cycle_registry False 0 [] = [1, 2]"
  "dependencies cycle_registry True 1 [] = [1, 0, 2]"
  by (simp_all add: cycle_registry_def new_Tag_def dependencies_eval)

subsection \<open>Claims about the dependency closure\<close>

text \<open>
  C5, as stated: for every tag \<open>T\<close>, \<^verbatim>\<open>dependencies(T, true)\<close> contains \<open>T\<close>,
  \<^verbatim>\<open>dependencies(T, false)\<close> does not, and whenever a tag named \<^verbatim>\<open>REQUIRED\<close> exists the
  result contains it exactly once. The last part fails when \<open>T\<close> is the \<^verbatim>\<open>REQUIRED\<close> tag
  itself and \<^verbatim>\<open>includeSelf\<close> is false: the final filter removes the root, whatever its name.
  In a registry whose only tag is \<^verbatim>\<open>REQUIRED\<close>, the result for that tag without itself is
  empty.
\<close>

theorem C5_counterexample:
  "find_tag [new_Tag (Some ''REQUIRED'')] (Some ''REQUIRED'') = Some 0 \<and>
   dependencies [new_Tag (Some ''REQUIRED'')] False 0 [] = [] \<and>
   count_list (dependencies [new_Tag (Some ''REQUIRED'')] False 0 []) 0 \<noteq> 1"
  by (simp add: new_Tag_def dependencies_eval)

text \<open>
  C5, amended: \<^verbatim>\<open>dependencies(T, true)\<close> contains \<open>T\<close>, \<^verbatim>\<open>dependencies(T, false)\<close> does not
  contain \<open>T\<close>, and whenever a tag named \<^verbatim>\<open>REQUIRED\<close> exists in the registry the result
  contains that tag exactly once, unless \<open>T\<close> is that tag and \<^verbatim>\<open>includeSelf\<close> is false.
\<close>

theorem C5_dependencies_self_and_REQUIRED:
  "t \<in> set (dependencies ts True t []) \<and>
   t \<notin> set (dependencies ts False t []) \<and>
   (find_tag ts (Some ''REQUIRED'') = Some r \<longrightarrow> (includeSelf \<or> r \<noteq> t) \<longrightarrow>
      count_list (dependencies ts includeSelf t []) r = 1)"
proof -
  have "distinct (dependencies ts includeSelf t [])"
    using dependencies_distinct_all(1)[of "[]" ts includeSelf t] by simp
  then show ?thesis
    using dependencies_root[of t ts "[]"] dependencies_no_root[of t ts "[]"]
      dependencies_REQUIRED[of ts r includeSelf t "[]"]
    by (auto simp: count_list_distinct)
qed

theorem C5_witness:
  "find_tag cycle_registry (Some ''REQUIRED'') = Some 2 \<and>
   count_list (dependencies cycle_registry False 0 []) 2 = 1 \<and>
   0 \<in> set (dependencies cycle_registry True 0 []) \<and>
   0 \<notin> set (dependencies cycle_registry False 0 [])"
proof -
  have f: "find_tag cycle_registry (Some ''REQUIRED'') = Some 2"
    by (simp add: cycle_registry_def new_Tag_def)
  show ?thesis
    using f C5_dependencies_self_and_REQUIRED[of 0 cycle_registry 2 False] by simp
qed

text \<open>
  C6: \<^verbatim>\<open>dependencies\<close> terminates and returns a finite, duplicate-free collection of tags
  for every registry, cyclic requirement graphs and unresolved required names included.
  Termination is the totality of \<open>dependencies\<close>, proved above for every registry; the
  result is a list without duplicates, of references to tags of the registry and
  possibly the root.
\<close>

theorem C6_dependencies_total_distinct:
  "distinct (dependencies ts includeSelf t []) \<and>
   set (dependencies ts includeSelf t []) \<subseteq> insert t {..<length ts} \<and>
   length (dependencies ts includeSelf t []) \<le> Suc (length ts)"
proof -
  let ?d = "dependencies ts includeSelf t []"
  have d: "distinct ?d"
    using dependencies_distinct_all(1)[of "[]" ts includeSelf t] by simp
  have s: "set ?d \<subseteq> insert t {..<length ts}"
    using dependencies_range_all(1)[of ts "insert t {..<length ts}" t "[]" includeSelf] by auto
  have "card (set ?d) \<le> card (insert t {..<length ts})"
    using s by (intro card_mono) auto
  also have "\<dots> \<le> Suc (length ts)"
    by (simp add: card_insert_if)
  finally have "length ?d \<le> Suc (length ts)"
    using d by (simp add: distinct_card)
  with d s show ?thesis by simp
qed

subsection \<open>Facts about compilation\<close>

text \<open>The output of the outer loop is the rendering of the included lines, in order.\<close>

lemma foldl_append_if:
  "foldl (\<lambda>output line. if P line then output @ f line else output) acc ls =
     acc @ concat (map f (filter P ls))"
  by (induction ls arbitrary: acc) simp_all

lemma compile_lines_concat:
  "compile_lines s includedTagNames uglified =
     concat (map (render_line uglified)
       (filter (\<lambda>line. includeLine_loop (tags s) includedTagNames False (line_tags line)) (lines s)))"
  unfolding compile_lines_def
  using foldl_append_if[of "\<lambda>line. includeLine_loop (tags s) includedTagNames False (line_tags line)"
      "render_line uglified" "[]" "lines s"]
  by simp

lemma includeLine_loop_empty_names:
  "includeLine_loop ts [] False lts = False"
  by (induction lts) simp_all

lemma compile_lines_empty_names: "compile_lines s [] uglified = []"
  by (simp add: compile_lines_concat includeLine_loop_empty_names)

subsection \<open>Claims about compilation\<close>

text \<open>
  C1, as stated: compiling with the empty set of included tag names yields exactly the
  lines that carry no tag at all; the script with the untagged line \<^verbatim>\<open>x=1;\<close> and a line
  tagged \<^verbatim>\<open>(EXTRA, OR)\<close> gives \<^verbatim>\<open>x=1;\<close> and nothing else. In the code every line starts
  with \<^verbatim>\<open>includeLine = false\<close> and only a tag of the line whose name is included sets it,
  so the untagged line is not emitted: the output of \<open>untagged_source\<close>, whose lines
  without tag are \<^verbatim>\<open>x=1;\<close> and the definition of the tag, is empty.
\<close>

theorem C1_counterexample:
  "filter (\<lambda>line. line_tags line = []) (lines untagged_script) =
     [new_Line ''x=1; '' [], new_Line [] ''UTAGDEF DESC EXTRA more ''] \<and>
   compile Inr Inr untagged_script [] False False = (Inr [] :: unit + string) \<and>
   compile Inr Inr untagged_script [] False False \<noteq>
     (Inr (concat (map (render_line False)
        (filter (\<lambda>line. line_tags line = []) (lines untagged_script)))) :: unit + string) \<and>
   compile Inr Inr untagged_script [] False False \<noteq> (Inr (''x=1; '' @ [CHR 0x0A]) :: unit + string)"
  by (simp add: compile_def compile_lines_def untagged_script_parsed new_Tag_def new_Line_def
      render_line_def)

text \<open>
  C1, amended: for every script, compiling with the empty set of included tag names
  (minify and format disabled) yields the empty output; no line is emitted, tagged or
  not.
\<close>

theorem C1_compile_empty_set:
  "compile minify format s [] False False = Inr []"
  by (simp add: compile_def compile_lines_empty_names)

text \<open>
  C10: for every set of included tag names and every line whose list of tags is empty,
  \<^verbatim>\<open>compile\<close> never emits that line: the inner loop leaves \<^verbatim>\<open>includeLine\<close> false, and
  the result of \<^verbatim>\<open>compile\<close>, with any transforms and flags, is that of the script
  without the line.
\<close>

theorem C10_untagged_line_never_emitted:
  "line_tags line = [] \<longrightarrow>
     \<not> includeLine_loop (tags s) includedTagNames False (line_tags line) \<and>
     compile minify format (s\<lparr>lines := before @ [line] @ rest\<rparr>) includedTagNames uglified beautified =
     compile minify format (s\<lparr>lines := before @ rest\<rparr>) includedTagNames uglified beautified"
  by (simp add: compile_def compile_lines_concat)

theorem C10_witness:
  "line_tags (new_Line ''x=1; '' []) = [] \<and>
   lines untagged_script = [new_Line ''x=1; '' []] @ tl (lines untagged_script) \<and>
   compile Inr Inr untagged_script [Some ''EXTRA''] False False =
     (Inr (''y=2;  // UTAGSET LINE EXTRA OR '' @ [CHR 0x0A]) :: unit + string)"
proof -
  have l: "untagged_script = untagged_script\<lparr>lines := [] @ [new_Line ''x=1; '' []] @ tl (lines untagged_script)\<rparr>"
    by (simp add: untagged_script_parsed new_Line_def)
  have e: "compile Inr Inr (untagged_script\<lparr>lines := [] @ [new_Line ''x=1; '' []] @ tl (lines untagged_script)\<rparr>)
             [Some ''EXTRA''] False False =
           compile (Inr :: string \<Rightarrow> unit + string) Inr (untagged_script\<lparr>lines := [] @ tl (lines untagged_script)\<rparr>)
             [Some ''EXTRA''] False False"
    using C10_untagged_line_never_emitted[of "new_Line ''x=1; '' []" untagged_script "[Some ''EXTRA'']"
      "Inr :: string \<Rightarrow> unit + string" Inr "[]" "tl (lines untagged_script)" False False]
    by (simp add: new_Line_def)
  have r: "compile (Inr :: string \<Rightarrow> unit + string) Inr (untagged_script\<lparr>lines := [] @ tl (lines untagged_script)\<rparr>)
             [Some ''EXTRA''] False False = Inr (''y=2;  // UTAGSET LINE EXTRA OR '' @ [CHR 0x0A])"
    by (simp add: untagged_script_parsed compile_def compile_lines_def render_line_def new_Tag_def)
  have c: "compile Inr Inr untagged_script [Some ''EXTRA''] False False =
     (Inr (''y=2;  // UTAGSET LINE EXTRA OR '' @ [CHR 0x0A]) :: unit + string)"
    using l e r by simp
  show ?thesis
    using c l by (simp add: new_Line_def untagged_script_parsed)
qed

text \<open>
  C7: a line whose tags are \<^verbatim>\<open>(A, OR)\<close> followed by \<^verbatim>\<open>(B, AND)\<close> is excluded when the
  included tag names are \<^verbatim>\<open>["A"]\<close>, the later AND overriding the earlier OR match, and
  included when they are \<^verbatim>\<open>["A", "B"]\<close>. \<open>A\<close> and \<open>B\<close> are the names of two tags of the
  registry, and the line stands anywhere in the script: with \<^verbatim>\<open>["A"]\<close> the output is that
  of the script without the line, with \<^verbatim>\<open>["A", "B"]\<close> the line is rendered between the
  output of the lines before it and the output of the lines after it.
\<close>

theorem C7_AND_veto:
  assumes "line_tags line = [\<lparr>tag = a, mode = Some OR\<rparr>, \<lparr>tag = b, mode = Some AND\<rparr>]"
    and "name (tags s ! a) = Some A" and "name (tags s ! b) = Some B" and "A \<noteq> B"
    and "lines s = before @ [line] @ rest"
  shows "\<not> includeLine_loop (tags s) [Some A] False (line_tags line) \<and>
         compile_lines s [Some A] uglified =
           compile_lines (s\<lparr>lines := before @ rest\<rparr>) [Some A] uglified \<and>
         includeLine_loop (tags s) [Some A, Some B] False (line_tags line) \<and>
         compile_lines s [Some A, Some B] uglified =
           compile_lines (s\<lparr>lines := before\<rparr>) [Some A, Some B] uglified
           @ render_line uglified line
           @ compile_lines (s\<lparr>lines := rest\<rparr>) [Some A, Some B] uglified"
  using assms by (simp add: compile_lines_concat)

theorem C7_witness:
  "line_tags (lines veto_script ! 3) = [\<lparr>tag = 0, mode = Some OR\<rparr>, \<lparr>tag = 1, mode = Some AND\<rparr>] \<and>
   code (lines veto_script ! 3) = ''x=1; '' \<and>
   compile_lines veto_script [Some ''A''] True = [] \<and>
   compile_lines veto_script [Some ''A'', Some ''B''] True =
     [CHR 0x0A] @ ''x=1; '' @ [CHR 0x0A] @ [CHR 0x0A]"
proof -
  have t: "line_tags (lines veto_script ! 3) =
             [\<lparr>tag = 0, mode = Some OR\<rparr>, \<lparr>tag = 1, mode = Some AND\<rparr>]"
    and c: "code (lines veto_script ! 3) = ''x=1; ''"
    and a: "name (tags veto_script ! 0) = Some ''A''"
    and b: "name (tags veto_script ! 1) = Some ''B''"
    and l: "lines veto_script =
              take 3 (lines veto_script) @ [lines veto_script ! 3] @ drop 4 (lines veto_script)"
    by (simp_all add: veto_script_parsed new_Tag_def)
  have n: "''A'' \<noteq> ''B''" by simp
  note v = C7_AND_veto[OF t a b n l, of True]
  have 1: "compile_lines (veto_script\<lparr>lines :=
             take 3 (lines veto_script) @ drop 4 (lines veto_script)\<rparr>) [Some ''A''] True = []"
    by (simp add: veto_script_parsed new_Tag_def compile_lines_def)
  have 2: "compile_lines (veto_script\<lparr>lines := take 3 (lines veto_script)\<rparr>)
             [Some ''A'', Some ''B''] True = [CHR 0x0A]"
    by (simp add: veto_script_parsed new_Tag_def compile_lines_def render_line_def)
  have 3: "compile_lines (veto_script\<lparr>lines := drop 4 (lines veto_script)\<rparr>)
             [Some ''A'', Some ''B''] True = [CHR 0x0A]"
    by (simp add: veto_script_parsed new_Tag_def compile_lines_def render_line_def)
  have r: "render_line True (lines veto_script ! 3) = ''x=1; '' @ [CHR 0x0A]"
    by (simp add: veto_script_parsed render_line_def)
  show ?thesis
    using v t c by (simp only: 1 2 3 r) simp
qed

subsection \<open>Facts about the words of a comment\<close>

text \<open>
  A word without spaces followed by a space is one piece of the split. The comments
  are written as the constructor of \<^verbatim>\<open>Script\<close> builds them: every word followed by one
  space.
\<close>

lemma split_spaces_from_word:
  "CHR '' '' \<notin> set X \<Longrightarrow>
     split_run (\<lambda>c. c = CHR '' '') w (X @ CHR '' '' # r) =
       (w @ X) # split_run (\<lambda>c. c = CHR '' '') [] (dropWhile (\<lambda>d. d = CHR '' '') r)"
  by (induction X arbitrary: w) auto

lemma dropWhile_space_word:
  "X \<noteq> [] \<Longrightarrow> CHR '' '' \<notin> set X \<Longrightarrow> dropWhile (\<lambda>d. d = CHR '' '') (X @ r) = X @ r"
  by (cases X) auto

lemma split_START:
  assumes "X \<noteq> []" and "CHR '' '' \<notin> set X"
  shows "split_spaces (''UTAGSET START '' @ X @ '' OR '') = [''UTAGSET'', ''START'', X, ''OR'', []]"
  using assms by (simp add: split_spaces_def split_spaces_from_word dropWhile_space_word)

lemma split_END:
  assumes "X \<noteq> []" and "CHR '' '' \<notin> set X"
  shows "split_spaces (''UTAGSET END '' @ X @ '' OR '') = [''UTAGSET'', ''END'', X, ''OR'', []]"
  using assms by (simp add: split_spaces_def split_spaces_from_word dropWhile_space_word)

lemma split_empty: "split_spaces [] = [[]]"
  by (simp add: split_spaces_def)

lemma trim_no_break_space: "trim (CHR 0xA0 # ''a b'' @ [CHR 0x09, CHR 0xA0]) = ''a b''"
  by (simp add: trim_def is_whitespace_def)

lemma find_or_create_range:
  "find_or_create ts n = (ts1, t) \<Longrightarrow> t < length ts1"
  by (auto simp: find_or_create_def split: option.splits dest: find_tag_Some)

text \<open>
  A line whose comment does not start with \<^verbatim>\<open>UTAGSET\<close>, outside of any block, stays as it
  is and opens no block.
\<close>

lemma tagLines_line_other:
  "nth_opt (split_spaces (comment l)) 0 \<noteq> Some ''UTAGSET'' \<Longrightarrow> line_tags l = [] \<Longrightarrow>
     tagLines_line ts l ([], con) = (l, [], con)"
  by (simp add: tagLines_line_def attach_def Let_def)

lemma tagLines_loop_other:
  "\<forall>l \<in> set pre. nth_opt (split_spaces (comment l)) 0 \<noteq> Some ''UTAGSET'' \<and> line_tags l = [] \<Longrightarrow>
     tagLines_loop ts (pre @ rest) [] con =
       (pre @ fst (tagLines_loop ts rest [] con), snd (tagLines_loop ts rest [] con))"
  by (induction pre) (simp_all add: tagLines_line_other split: prod.splits)

subsection \<open>Claims about line tagging and tag definitions\<close>

text \<open>
  C8, as stated: for a script whose lines are a line with the comment
  \<^verbatim>\<open>UTAGSET START X OR\<close>, a line of code without comment and a line with the comment
  \<^verbatim>\<open>UTAGSET END X OR\<close>, compiling with \<^verbatim>\<open>["X"]\<close> includes all three lines. A tag exists only
  once a \<^verbatim>\<open>UTAGDEF\<close> directive has named it, and \<^verbatim>\<open>tagLines\<close> resolves the name of a
  \<^verbatim>\<open>UTAGSET\<close> directive through the registry. The script of these three lines alone has
  an empty registry after \<^verbatim>\<open>getTags\<close>: both directives log that the line tag could not be
  set, no line gets a tag, and the compilation with \<^verbatim>\<open>["X"]\<close> is empty, the line of code
  included.
\<close>

theorem C8_counterexample:
  "tags bare_block_script = [] \<and>
   map code (lines bare_block_script) = [[], ''b=1; '', []] \<and>
   map line_tags (lines (fst (tagLines bare_block_script []))) = [[], [], []] \<and>
   snd (tagLines bare_block_script []) =
     [Console_error (''Failed to set line tag '' @ [CHR 0x22] @ ''X'' @ [CHR 0x22] @ ''.''),
      Console_error (''Failed to set line tag '' @ [CHR 0x22] @ ''X'' @ [CHR 0x22] @ ''.'')] \<and>
   compile Inr Inr (fst (tagLines bare_block_script [])) [Some ''X''] False False =
     (Inr [] :: unit + string) \<and>
   compile Inr Inr (fst (tagLines bare_block_script [])) [Some ''X''] False False \<noteq>
     (Inr (concat (map (render_line False) (lines bare_block_script))) :: unit + string) \<and>
   compile_lines (fst (tagLines bare_block_script [])) [Some ''X''] True = []"
  unfolding bare_block_script_parsed
  by (simp add: tagLines_eval compile_def compile_lines_def render_line_def)

text \<open>
  C8, amended: block tagging is inclusive of its delimiter lines, provided \<open>X\<close> is the
  name of a tag of the registry, that is, a \<^verbatim>\<open>UTAGDEF\<close> directive has defined it. The
  script has a line with the comment \<^verbatim>\<open>UTAGSET START X OR\<close>, a line of code without
  comment and a line with the comment \<^verbatim>\<open>UTAGSET END X OR\<close>; before the block it has any
  lines without \<^verbatim>\<open>UTAGSET\<close> directive, such as the definition of the tag. \<^verbatim>\<open>tagLines\<close>
  gives each of the three lines the tag \<^verbatim>\<open>(X, OR)\<close>; compiling with a set that contains
  \<open>X\<close> emits all three lines, with the code of the delimiter lines, and compiling with a
  set that does not contain \<open>X\<close> emits none of them.
\<close>

theorem C8_block_inclusive:
  assumes "find_tag (tags s) (Some X) = Some x" and "X \<noteq> []" and "CHR '' '' \<notin> set X"
    and "\<forall>l \<in> set pre. nth_opt (split_spaces (comment l)) 0 \<noteq> Some ''UTAGSET'' \<and> line_tags l = []"
    and "block =
          [\<lparr>code = c1, comment = ''UTAGSET START '' @ X @ '' OR '', line_tags = []\<rparr>,
           \<lparr>code = c2, comment = [], line_tags = []\<rparr>,
           \<lparr>code = c3, comment = ''UTAGSET END '' @ X @ '' OR '', line_tags = []\<rparr>]"
    and "lines s = pre @ block"
  shows "map line_tags (lines (fst (tagLines s con))) =
           map (\<lambda>l. []) pre @
           [[\<lparr>tag = x, mode = Some OR\<rparr>], [\<lparr>tag = x, mode = Some OR\<rparr>], [\<lparr>tag = x, mode = Some OR\<rparr>]] \<and>
         compile_lines (fst (tagLines s con)) includedTagNames uglified =
           (if Some X \<in> set includedTagNames
            then concat (map (render_line uglified) block) else [])"
proof -
  have n: "name (tags s ! x) = Some X"
    using assms(1) by (simp add: find_tag_Some)
  let ?lt = "\<lparr>tag = x, mode = Some OR\<rparr>"
  have 1: "tagLines_line (tags s) (block ! 0) ([], con) =
             ((block ! 0)\<lparr>line_tags := [?lt]\<rparr>, [?lt], con)"
    using assms(1,5) split_START[OF assms(2,3)]
    by (simp add: tagLines_line_def nth_opt_def attach_def Mode_lookup_def Let_def)
  have 2: "tagLines_line (tags s) (block ! 1) ([?lt], con) =
             ((block ! 1)\<lparr>line_tags := [?lt]\<rparr>, [?lt], con)"
    using assms(5) by (simp add: tagLines_line_def split_empty nth_opt_def attach_def Let_def)
  have 3: "tagLines_line (tags s) (block ! 2) ([?lt], con) =
             ((block ! 2)\<lparr>line_tags := [?lt]\<rparr>, [], con)"
    using assms(1,5) n split_END[OF assms(2,3)]
    by (simp add: tagLines_line_def nth_opt_def attach_def Mode_lookup_def Let_def)
  have b: "fst (tagLines_loop (tags s) block [] con) =
             [(block ! 0)\<lparr>line_tags := [?lt]\<rparr>, (block ! 1)\<lparr>line_tags := [?lt]\<rparr>,
              (block ! 2)\<lparr>line_tags := [?lt]\<rparr>]"
    using 1 2 3 assms(5) by simp
  have l: "lines (fst (tagLines s con)) =
             pre @ [(block ! 0)\<lparr>line_tags := [?lt]\<rparr>, (block ! 1)\<lparr>line_tags := [?lt]\<rparr>,
                    (block ! 2)\<lparr>line_tags := [?lt]\<rparr>]"
    using tagLines_loop_other[OF assms(4), of "tags s" block con] b assms(6)
    by (simp add: tagLines_def split: prod.splits)
  have t: "tags (fst (tagLines s con)) = tags s"
    by (simp add: tagLines_def split: prod.splits)
  have p: "filter (\<lambda>line. includeLine_loop (tags s) includedTagNames False (line_tags line)) pre = []"
    using assms(4) by (induction pre) simp_all
  have m: "map line_tags pre = map (\<lambda>l. []) pre"
    using assms(4) by (induction pre) simp_all
  show ?thesis
    using l t n p m assms(5) by (simp add: compile_lines_concat render_line_def)
qed

theorem C8_witness:
  "find_tag (tags block_script) (Some ''X'') = Some 0 \<and>
   compile_lines (fst (tagLines block_script [])) [Some ''X''] True =
     ''a=0; '' @ [CHR 0x0A] @ ''b=1; '' @ [CHR 0x0A] @ ''c=2; '' @ [CHR 0x0A] \<and>
   compile_lines (fst (tagLines block_script [])) [Some ''Y''] True = []"
proof -
  let ?pre = "[new_Line [] ''UTAGDEF DESC X block '']"
  let ?block = "[\<lparr>code = ''a=0; '', comment = ''UTAGSET START '' @ ''X'' @ '' OR '', line_tags = []\<rparr>,
           \<lparr>code = ''b=1; '', comment = [], line_tags = []\<rparr>,
           \<lparr>code = ''c=2; '', comment = ''UTAGSET END '' @ ''X'' @ '' OR '', line_tags = []\<rparr>]"
  have f: "find_tag (tags block_script) (Some ''X'') = Some 0"
    by (simp add: block_script_parsed new_Tag_def)
  have p: "\<forall>l \<in> set ?pre. nth_opt (split_spaces (comment l)) 0 \<noteq> Some ''UTAGSET'' \<and> line_tags l = []"
    by (simp add: new_Line_def split_spaces_def nth_opt_def)
  have l: "lines block_script = ?pre @ ?block"
    by (simp add: block_script_parsed new_Line_def)
  have x: "''X'' \<noteq> []" "CHR '' '' \<notin> set ''X''" by simp_all
  show ?thesis
    using f C8_block_inclusive[OF f x p refl l, of "[]" "[Some ''X'']" True]
      C8_block_inclusive[OF f x p refl l, of "[]" "[Some ''Y'']" True]
    by (simp add: render_line_def)
qed

text \<open>
  C3: after a line's own directive is processed, every open block is attached to the
  line, also when the directive is malformed or names an unknown tag. The code does so
  for an unknown property, but for a tag that is not in the registry it leaves the loop
  body with \<^verbatim>\<open>continue\<close> before the open blocks are attached. In \<open>unknown_tag_source\<close> the line
  \<^verbatim>\<open>y=2;\<close> lies inside the open block of \<^verbatim>\<open>X\<close> and names the unknown tag \<^verbatim>\<open>NOPE\<close>: it ends
  with no tag at all and is missing from the compilation with \<^verbatim>\<open>["X"]\<close>, while the line
  \<^verbatim>\<open>z=3;\<close>, whose property is unknown, gets the tag of the block.
\<close>

theorem C3_unknown_tag_line_gets_no_tags:
  "map line_tags (lines (fst (tagLines unknown_tag_script []))) =
     [[], [\<lparr>tag = 0, mode = Some OR\<rparr>], [], [\<lparr>tag = 0, mode = Some OR\<rparr>],
      [\<lparr>tag = 0, mode = Some OR\<rparr>]] \<and>
   snd (tagLines unknown_tag_script []) =
     [Console_error (''Failed to set line tag '' @ [CHR 0x22] @ ''NOPE'' @ [CHR 0x22] @ ''.''),
      Console_warn (''Skipping unknown property '' @ [CHR 0x22] @ ''BOGUS'' @ [CHR 0x22] @ ''.'')] \<and>
   compile_lines (fst (tagLines unknown_tag_script [])) [Some ''X''] True =
     [CHR 0x0A] @ ''z=3; '' @ [CHR 0x0A] @ [CHR 0x0A]"
  unfolding unknown_tag_script_parsed
  by (simp add: tagLines_eval compile_lines_def render_line_def)

text \<open>
  C9: a \<^verbatim>\<open>UTAGDEF REQU\<close> directive whose data names a tag that is not in the registry at
  that moment (the subject tag found or created first) logs a warning and leaves the
  registry as it is, so nothing is appended to the required names of the subject tag,
  and no tag in the dependencies of the subject tag has that name; when the data names
  a tag of the registry, that name is appended to the required names of the subject.
\<close>

theorem C9_REQU_unresolved:
  assumes "nth_opt (split_spaces (comment line)) 0 = Some ''UTAGDEF''"
    and "nth_opt (split_spaces (comment line)) 1 = Some ''REQU''"
    and "find_or_create ts (nth_opt (split_spaces (comment line)) 2) = (ts1, t)"
    and "data = trim (join_spaces (drop 3 (split_spaces (comment line))))"
  shows "(find_tag ts1 (Some data) = None \<longrightarrow>
            getTags_line line (ts, con) =
              (ts1, con @ [Console_warn (toString (name (ts1 ! t)) @ '' is unable to require tag ''
                             @ [CHR 0x22] @ data @ [CHR 0x22] @ ''.'')]) \<and>
            (\<forall>d \<in> set (dependencies (fst (getTags_line line (ts, con))) includeSelf t []).
               name (fst (getTags_line line (ts, con)) ! d) \<noteq> Some data)) \<and>
         (\<forall>r. find_tag ts1 (Some data) = Some r \<longrightarrow>
            getTags_line line (ts, con) =
              (ts1[t := (ts1 ! t)\<lparr>requiredTagNames := requiredTagNames (ts1 ! t) @ [Some data]\<rparr>], con))"
proof (intro conjI impI allI)
  assume none: "find_tag ts1 (Some data) = None"
  show g: "getTags_line line (ts, con) =
       (ts1, con @ [Console_warn (toString (name (ts1 ! t)) @ '' is unable to require tag ''
                             @ [CHR 0x22] @ data @ [CHR 0x22] @ ''.'')])"
    using assms none by (simp add: getTags_line_def Let_def)
  show "\<forall>d \<in> set (dependencies (fst (getTags_line line (ts, con))) includeSelf t []).
               name (fst (getTags_line line (ts, con)) ! d) \<noteq> Some data"
  proof
    fix d assume "d \<in> set (dependencies (fst (getTags_line line (ts, con))) includeSelf t [])"
    then have "d \<in> set (dependencies ts1 includeSelf t [])" using g by simp
    then have "d < length ts1"
      using dependencies_in_registry[of t ts1 d includeSelf] find_or_create_range[OF assms(3)] by simp
    then show "name (fst (getTags_line line (ts, con)) ! d) \<noteq> Some data"
      using none g by (simp add: find_tag_None)
  qed
next
  fix r assume some: "find_tag ts1 (Some data) = Some r"
  then have "name (ts1 ! r) = Some data" by (simp add: find_tag_Some)
  then show "getTags_line line (ts, con) =
              (ts1[t := (ts1 ! t)\<lparr>requiredTagNames := requiredTagNames (ts1 ! t) @ [Some data]\<rparr>], con)"
    using assms some by (simp add: getTags_line_def Let_def)
qed


theorem C9_witness:
  "getTags_line (new_Line [] ''UTAGDEF REQU A B '') ([], []) =
     ([new_Tag (Some ''A'')],
      [Console_warn (''A is unable to require tag '' @ [CHR 0x22] @ ''B'' @ [CHR 0x22] @ ''.'')]) \<and>
   0 \<in> set (dependencies [new_Tag (Some ''A'')] True 0 []) \<and>
   name ([new_Tag (Some ''A'')] ! 0) \<noteq> Some ''B'' \<and>
   getTags_line (new_Line [] ''UTAGDEF REQU A B '') ([new_Tag (Some ''B'')], []) =
     ([new_Tag (Some ''B''), (new_Tag (Some ''A''))\<lparr>requiredTagNames := [Some ''B'']\<rparr>], [])"
proof -
  let ?line = "new_Line [] ''UTAGDEF REQU A B ''"
  have w: "split_spaces (comment ?line) = [''UTAGDEF'', ''REQU'', ''A'', ''B'', []]"
    by (simp add: new_Line_def split_spaces_def)
  have 0: "nth_opt (split_spaces (comment ?line)) 0 = Some ''UTAGDEF''"
    and 1: "nth_opt (split_spaces (comment ?line)) 1 = Some ''REQU''"
    by (simp_all add: w nth_opt_def)
  have d: "''B'' = trim (join_spaces (drop 3 (split_spaces (comment ?line))))"
    by (simp add: w trim_def is_whitespace_def)
  have c1: "find_or_create [] (nth_opt (split_spaces (comment ?line)) 2) = ([new_Tag (Some ''A'')], 0)"
    by (simp add: w nth_opt_def find_or_create_def)
  have c2: "find_or_create [new_Tag (Some ''B'')] (nth_opt (split_spaces (comment ?line)) 2) =
              ([new_Tag (Some ''B''), new_Tag (Some ''A'')], 1)"
    by (simp add: w nth_opt_def find_or_create_def new_Tag_def)
  have n1: "find_tag [new_Tag (Some ''A'')] (Some ''B'') = None"
    by (simp add: new_Tag_def)
  have n2: "find_tag [new_Tag (Some ''B''), new_Tag (Some ''A'')] (Some ''B'') = Some 0"
    by (simp add: new_Tag_def)
  note a = C9_REQU_unresolved[OF 0 1 c1 d, of "[]" True]
  note b = C9_REQU_unresolved[OF 0 1 c2 d, of "[]" True]
  have g1: "getTags_line ?line ([], []) =
     ([new_Tag (Some ''A'')],
      [Console_warn (''A is unable to require tag '' @ [CHR 0x22] @ ''B'' @ [CHR 0x22] @ ''.'')])"
    using a n1 by (simp add: toString_def new_Tag_def)
  have "\<forall>d \<in> set (dependencies (fst (getTags_line ?line ([], []))) True 0 []).
          name (fst (getTags_line ?line ([], [])) ! d) \<noteq> Some ''B''"
    using a n1 by blast
  then have "\<forall>d \<in> set (dependencies [new_Tag (Some ''A'')] True 0 []).
      name ([new_Tag (Some ''A'')] ! d) \<noteq> Some ''B''"
    by (simp only: g1 fst_conv)
  then have g2: "0 \<in> set (dependencies [new_Tag (Some ''A'')] True 0 []) \<and>
      name ([new_Tag (Some ''A'')] ! 0) \<noteq> Some ''B''"
    using dependencies_root[of 0 "[new_Tag (Some ''A'')]" "[]"] by blast
  have g3: "getTags_line ?line ([new_Tag (Some ''B'')], []) =
     ([new_Tag (Some ''B''), (new_Tag (Some ''A''))\<lparr>requiredTagNames := [Some ''B'']\<rparr>], [])"
    using b n2 by (simp add: new_Tag_def)
  show ?thesis using g1 g2 g3 by blast
qed

subsection \<open>Facts about loadExternal\<close>

text \<open>
  The counter and the fetches in flight add up to the number of tags seen, and
  \<^verbatim>\<open>resolve\<close> has been called exactly when the counter has been incremented at least
  once and has reached the number of tags.
\<close>

lemma tag_loaded_simps:
  "script (tag_loaded st) = script st" "pending (tag_loaded st) = pending st"
  "tagsLoaded (tag_loaded st) = Suc (tagsLoaded st)"
  "resolved (tag_loaded st) = (resolved st \<or> length (tags (script st)) \<le> Suc (tagsLoaded st))"
  by (simp_all add: tag_loaded_def)

definition join_invariant :: "Loading \<Rightarrow> nat \<Rightarrow> bool" where
  "join_invariant st k =
     (tagsLoaded st + length (pending st) = k \<and>
      resolved st = (0 < tagsLoaded st \<and> length (tags (script st)) \<le> tagsLoaded st))"

lemma loadExternal_for_invariant:
  "join_invariant st k \<Longrightarrow>
     join_invariant (loadExternal_for st idxs) (k + length idxs) \<and>
     tags (script (loadExternal_for st idxs)) = tags (script st)"
proof (induction idxs arbitrary: st k)
  case Nil
  then show ?case by simp
next
  case (Cons t rest)
  show ?case
  proof (cases "link (tags (script st) ! t) = []")
    case True
    have "join_invariant (tag_loaded st) (Suc k)"
      using Cons.prems by (auto simp: join_invariant_def tag_loaded_simps)
    from Cons.IH[OF this] True show ?thesis by (simp add: tag_loaded_simps)
  next
    case False
    have "join_invariant (st\<lparr>pending := pending st @ [t]\<rparr>) (Suc k)"
      using Cons.prems by (auto simp: join_invariant_def)
    from Cons.IH[OF this] False show ?thesis by simp
  qed
qed

lemma settle_invariant:
  assumes "join_invariant st k" and "t \<in> set (pending st)"
  shows "join_invariant (settle st t outcome) k \<and>
         tags (script (settle st t outcome)) = tags (script st)"
proof -
  have l: "length (remove1 t (pending st)) = length (pending st) - 1" "0 < length (pending st)"
    using assms(2) by (auto simp: length_remove1 length_pos_if_in_set)
  show ?thesis
    using assms(1) l
    by (cases outcome) (auto simp: settle_def Let_def join_invariant_def tag_loaded_simps)
qed

lemma settle_all_invariant:
  "settle_all st events = Some st' \<Longrightarrow> join_invariant st k \<Longrightarrow>
     join_invariant st' k \<and> tags (script st') = tags (script st)"
proof (induction st events arbitrary: st' rule: settle_all.induct)
  case (1 st)
  then show ?case by simp
next
  case (2 st t outcome rest)
  from 2(2) have m: "t \<in> set (pending st)" and r: "settle_all (settle st t outcome) rest = Some st'"
    by (auto split: if_splits)
  from settle_invariant[OF 2(3) m, of outcome] 2(1)[OF m r] show ?case by simp
qed

lemma loadExternal_resolved_iff:
  assumes "settle_all (loadExternal s con) events = Some st" and "pending st = []"
  shows "resolved st = (tags s \<noteq> [])"
proof -
  let ?st0 = "\<lparr>script = s, tagsLoaded = 0, resolved = False, pending = [], console = con\<rparr>"
  have "join_invariant ?st0 0" by (simp add: join_invariant_def)
  from loadExternal_for_invariant[OF this, of "[0..<length (tags s)]"]
  have i: "join_invariant (loadExternal s con) (length (tags s))"
    and t: "tags (script (loadExternal s con)) = tags s"
    by (simp_all add: loadExternal_def)
  from settle_all_invariant[OF assms(1) i] t assms(2) show ?thesis
    by (auto simp: join_invariant_def)
qed

text \<open>Without tags the counter is never incremented, whatever happens afterwards.\<close>

lemma loadExternal_zero_tags:
  assumes "tags s = []" and "settle_all (loadExternal s con) events = Some st"
  shows "\<not> resolved st"
proof -
  let ?st0 = "\<lparr>script = s, tagsLoaded = 0, resolved = False, pending = [], console = con\<rparr>"
  have "join_invariant ?st0 0" by (simp add: join_invariant_def)
  from loadExternal_for_invariant[OF this, of "[0..<length (tags s)]"] assms(1)
  have "join_invariant (loadExternal s con) 0"
    by (simp add: loadExternal_def)
  from settle_all_invariant[OF assms(2) this] show ?thesis
    by (simp add: join_invariant_def)
qed

subsection \<open>Facts about measureTags\<close>

text \<open>
  Writing a size changes neither the names nor the required names of the tags, on
  which alone \<^verbatim>\<open>dependencies\<close> and \<^verbatim>\<open>compile\<close> depend: two registries that agree on them
  (\<open>same_graph\<close>) give the same closures and the same compilations.
\<close>

definition same_graph :: "Tag list \<Rightarrow> Tag list \<Rightarrow> bool" where
  "same_graph ts ts' =
     (length ts' = length ts \<and>
      (\<forall>i. name (ts' ! i) = name (ts ! i) \<and>
           requiredTagNames (ts' ! i) = requiredTagNames (ts ! i)))"

lemma same_graph_refl: "same_graph ts ts"
  by (simp add: same_graph_def)

lemma same_graph_trans: "same_graph a b \<Longrightarrow> same_graph b c \<Longrightarrow> same_graph a c"
  by (simp add: same_graph_def)

lemma same_graph_size:
  "same_graph ts (ts[t := (ts ! t)\<lparr>size_bytes := v\<rparr>])"
proof -
  have "name (ts[t := (ts ! t)\<lparr>size_bytes := v\<rparr>] ! i) = name (ts ! i) \<and>
        requiredTagNames (ts[t := (ts ! t)\<lparr>size_bytes := v\<rparr>] ! i) = requiredTagNames (ts ! i)" for i
    by (cases "i = t"; cases "t < length ts") (simp_all add: list_update_beyond)
  then show ?thesis by (simp add: same_graph_def)
qed

lemma same_graph_find_tag:
  "length ts' = length ts \<Longrightarrow> \<forall>i < length ts. name (ts' ! i) = name (ts ! i) \<Longrightarrow>
     find_tag ts' n = find_tag ts n"
proof (induction ts arbitrary: ts')
  case Nil
  then show ?case by simp
next
  case (Cons a ts)
  then obtain b ts2 where b: "ts' = b # ts2" by (cases ts') auto
  have "name b = name a" using Cons.prems(2) b by auto
  moreover have "find_tag ts2 n = find_tag ts n"
    using Cons.prems b by (intro Cons.IH) auto
  ultimately show ?case using b by simp
qed

lemma same_graph_dependencies_all:
  "same_graph ts ts' \<longrightarrow> dependencies ts' includeSelf t out = dependencies ts includeSelf t out"
  "same_graph ts ts' \<longrightarrow> dependencies_while ts' toAdd out = dependencies_while ts toAdd out"
  "same_graph ts ts' \<longrightarrow> dependencies_for ts' names out = dependencies_for ts names out"
proof (induct ts includeSelf t out and ts toAdd out and ts names out
        rule: dependencies_dependencies_while_dependencies_for.induct)
  case (1 ts includeSelf t out)
  show ?case
  proof
    assume g: "same_graph ts ts'"
    then have f: "find_tag ts' (Some ''REQUIRED'') = find_tag ts (Some ''REQUIRED'')"
      using same_graph_find_tag[of ts' ts "Some ''REQUIRED''"] by (simp add: same_graph_def)
    from 1 g f show "dependencies ts' includeSelf t out = dependencies ts includeSelf t out"
      by (simp add: dependencies.simps[of ts] dependencies.simps[of ts'] Let_def)
  qed
next
  case (2 ts out)
  then show ?case by simp
next
  case (3 ts addingTag toAdd out)
  show ?case
  proof
    assume g: "same_graph ts ts'"
    then have l: "length ts' = length ts"
      and r: "requiredTagNames (ts' ! addingTag) = requiredTagNames (ts ! addingTag)"
      by (simp_all add: same_graph_def)
    from 3 g l r show "dependencies_while ts' (addingTag # toAdd) out =
        dependencies_while ts (addingTag # toAdd) out"
      by (simp add: dependencies_while.simps(2)[of ts] dependencies_while.simps(2)[of ts'])
  qed
next
  case (4 ts out)
  then show ?case by simp
next
  case (5 ts requiredTagName rest out)
  show ?case
  proof
    assume g: "same_graph ts ts'"
    then have f: "find_tag ts' requiredTagName = find_tag ts requiredTagName"
      using same_graph_find_tag[of ts' ts requiredTagName] by (simp add: same_graph_def)
    from 5 g f show "dependencies_for ts' (requiredTagName # rest) out =
        dependencies_for ts (requiredTagName # rest) out"
      by (simp add: dependencies_for.simps(2)[of ts] dependencies_for.simps(2)[of ts']
          split: option.splits)
  qed
qed

lemma same_graph_includeLine_loop:
  "same_graph ts ts' \<Longrightarrow>
     includeLine_loop ts' names b lts = includeLine_loop ts names b lts"
  by (induction lts arbitrary: b) (simp_all add: same_graph_def)

lemma same_graph_compile:
  assumes "same_graph (tags s) (tags s')" and "lines s' = lines s"
  shows "compile minify format s' names u b = compile minify format s names u b"
  using assms by (simp add: compile_def compile_lines_def same_graph_includeLine_loop)


definition measured ::
  "(string \<Rightarrow> 'e + string) \<Rightarrow> (string \<Rightarrow> 'e + string) \<Rightarrow> Script \<Rightarrow> nat \<Rightarrow> int \<Rightarrow> bool" where
  "measured minify format s t v =
     (\<exists>inclusive exclusive.
        compile minify format s
          (map (\<lambda>d. name (tags s ! d)) (dependencies (tags s) True t [])) True False = Inr inclusive \<and>
        compile minify format s
          (map (\<lambda>d. name (tags s ! d)) (dependencies (tags s) False t [])) True False = Inr exclusive \<and>
        v = int (length inclusive) - int (length exclusive))"

lemma measured_same:
  assumes "same_graph (tags s) (tags s')" and "lines s' = lines s"
  shows "measured minify format s' t v = measured minify format s t v"
proof -
  have n: "map (\<lambda>d. name (tags s' ! d)) (dependencies (tags s') b t []) =
           map (\<lambda>d. name (tags s ! d)) (dependencies (tags s) b t [])" for b
    using assms(1) same_graph_dependencies_all(1)[of "tags s" "tags s'" b t "[]"]
    by (simp add: same_graph_def)
  show ?thesis
    unfolding measured_def n same_graph_compile[OF assms] ..
qed

lemma measureTags_tag_step:
  assumes "measureTags_tag minify format s t = Inr s1"
  shows "lines s1 = lines s \<and> same_graph (tags s) (tags s1) \<and>
         (t < length (tags s) \<longrightarrow> measured minify format s t (size_bytes (tags s1 ! t))) \<and>
         (\<forall>i. i \<noteq> t \<longrightarrow> size_bytes (tags s1 ! i) = size_bytes (tags s ! i))"
  using assms
  by (auto simp: measureTags_tag_def Let_def measured_def same_graph_size split: sum.splits)

lemma measureTags_loop_sizes:
  "measureTags_loop minify format s idxs = Inr s' \<Longrightarrow> distinct idxs \<Longrightarrow>
     lines s' = lines s \<and> same_graph (tags s) (tags s') \<and>
     (\<forall>t \<in> set idxs. t < length (tags s) \<longrightarrow> measured minify format s t (size_bytes (tags s' ! t))) \<and>
     (\<forall>i. i \<notin> set idxs \<longrightarrow> size_bytes (tags s' ! i) = size_bytes (tags s ! i))"
proof (induction idxs arbitrary: s)
  case Nil
  then show ?case by (simp add: same_graph_refl)
next
  case (Cons t rest)
  from Cons.prems(1) obtain s1 where
    s1: "measureTags_tag minify format s t = Inr s1" and
    r: "measureTags_loop minify format s1 rest = Inr s'"
    by (auto split: sum.splits)
  note step = measureTags_tag_step[OF s1]
  from Cons.prems(2) have d: "distinct rest" and tr: "t \<notin> set rest" by simp_all
  note ih = Cons.IH[OF r d]
  have g: "same_graph (tags s) (tags s1)" and l: "lines s1 = lines s" using step by simp_all
  have len: "length (tags s1) = length (tags s)" using g by (simp add: same_graph_def)
  have 1: "lines s' = lines s" using ih l by simp
  have 2: "same_graph (tags s) (tags s')" using g ih same_graph_trans by blast
  have 3: "measured minify format s u (size_bytes (tags s' ! u))"
    if u: "u \<in> set (t # rest)" "u < length (tags s)" for u
  proof (cases "u = t")
    case True
    then have "size_bytes (tags s' ! u) = size_bytes (tags s1 ! t)" using ih tr by simp
    then show ?thesis using step u True by simp
  next
    case False
    then have "u \<in> set rest" using u by simp
    then have "measured minify format s1 u (size_bytes (tags s' ! u))"
      using ih u(2) len by simp
    then show ?thesis by (simp add: measured_same[OF g l])
  qed
  have 4: "size_bytes (tags s' ! i) = size_bytes (tags s ! i)" if "i \<notin> set (t # rest)" for i
    using that ih step by simp
  show ?case using 1 2 3 4 by blast
qed

lemma dependencies_no_requirements:
  assumes "t < length ts" and "requiredTagNames (ts ! t) = []"
    and "find_tag ts (Some ''REQUIRED'') = None"
  shows "dependencies ts True t [] = [t]" and "dependencies ts False t [] = []"
  using assms by (simp_all add: dependencies_eval)

lemma measureTags_loop_succeeds:
  assumes "\<And>x. \<exists>y. minify x = Inr y"
  shows "\<exists>s'. measureTags_loop minify format s idxs = Inr s'"
proof (induction idxs arbitrary: s)
  case Nil
  then show ?case by simp
next
  case (Cons t rest)
  have c: "\<exists>y. compile minify format s names True False = Inr y" for names
  proof -
    obtain y where "minify (compile_lines s names True) = Inr y" using assms by blast
    then show ?thesis by (simp add: compile_def)
  qed
  obtain a where a: "compile minify format s
      (map (\<lambda>d. name (tags s ! d)) (dependencies (tags s) True t [])) True False = Inr a"
    using c by blast
  obtain b where b: "compile minify format s
      (map (\<lambda>d. name (tags s ! d)) (dependencies (tags s) False t [])) True False = Inr b"
    using c by blast
  have "\<exists>s1. measureTags_tag minify format s t = Inr s1"
    using a b by (simp add: measureTags_tag_def Let_def)
  then show ?case using Cons.IH by auto
qed

lemma measureTags_succeeds:
  assumes "\<And>x. \<exists>y. minify x = Inr y"
  shows "\<exists>s'. measureTags minify format s = Inr s'"
  unfolding measureTags_def using assms by (rule measureTags_loop_succeeds)

subsection \<open>Claims about measureTags and loadExternal\<close>

text \<open>
  C2, as stated: \<^verbatim>\<open>measureTags\<close> sets the size of each tag to the difference of the lengths
  of two compilations rendered with minification and formatting disabled. The code calls
  \<^verbatim>\<open>this.compile(names)\<close>, so \<^verbatim>\<open>uglified\<close> has its default \<^verbatim>\<open>true\<close>: comments are left out
  and the text goes through the minifier. Even with a minifier that returns its input,
  the size of the tag \<^verbatim>\<open>T\<close> of \<open>one_tag_source\<close> is 6, the length of its line of code, and not
  28, the length of that line rendered with its comment.
\<close>

theorem C2_counterexample:
  "measureTags Inr Inr one_tag_script =
     (Inr (one_tag_script\<lparr>tags := [(new_Tag (Some ''T''))\<lparr>description := ''thing'', size_bytes := 6\<rparr>]\<rparr>)
        :: unit + Script) \<and>
   compile Inr Inr one_tag_script
     (map (\<lambda>d. name (tags one_tag_script ! d)) (dependencies (tags one_tag_script) True 0 [])) False False =
     (Inr (''x=1;  // UTAGSET LINE T OR '' @ [CHR 0x0A]) :: unit + string) \<and>
   compile Inr Inr one_tag_script
     (map (\<lambda>d. name (tags one_tag_script ! d)) (dependencies (tags one_tag_script) False 0 [])) False False =
     (Inr [] :: unit + string) \<and>
   (6 :: int) \<noteq> int (length (''x=1;  // UTAGSET LINE T OR '' @ [CHR 0x0A])) - int (length ([] :: string))"
  by (simp add: measureTags_def measureTags_tag_def one_tag_script_parsed new_Tag_def compile_def
      compile_lines_def render_line_def dependencies_eval)

text \<open>
  C2, amended: \<^verbatim>\<open>measureTags\<close> computes the size of every tag from compilations with
  minification enabled and formatting disabled (the defaults of \<^verbatim>\<open>compile\<close>): when it
  returns, both compilations of each tag have succeeded and the size of the tag is the
  length of the compilation with the names of its dependencies, itself included, minus
  the length of the one with itself excluded. For a tag without required names in a
  registry without a tag \<^verbatim>\<open>REQUIRED\<close>, these are the compilations with its own name and
  with no name. \<^verbatim>\<open>measureTags\<close> returns whenever the minifier does
  (\<open>measureTags_succeeds\<close>).
\<close>

theorem C2_measureTags_sizes:
  assumes "measureTags minify format s = Inr s'" and "t < length (tags s)"
  shows "(\<exists>inclusive exclusive.
            compile minify format s
              (map (\<lambda>d. name (tags s ! d)) (dependencies (tags s) True t [])) True False = Inr inclusive \<and>
            compile minify format s
              (map (\<lambda>d. name (tags s ! d)) (dependencies (tags s) False t [])) True False = Inr exclusive \<and>
            size_bytes (tags s' ! t) = int (length inclusive) - int (length exclusive)) \<and>
         (requiredTagNames (tags s ! t) = [] \<and> find_tag (tags s) (Some ''REQUIRED'') = None \<longrightarrow>
            (\<exists>inclusive exclusive.
               compile minify format s [name (tags s ! t)] True False = Inr inclusive \<and>
               compile minify format s [] True False = Inr exclusive \<and>
               size_bytes (tags s' ! t) = int (length inclusive) - int (length exclusive)))"
proof -
  have "measured minify format s t (size_bytes (tags s' ! t))"
    using measureTags_loop_sizes[of minify format s "[0..<length (tags s)]" s'] assms
    by (simp add: measureTags_def)
  then have m: "\<exists>inclusive exclusive.
            compile minify format s
              (map (\<lambda>d. name (tags s ! d)) (dependencies (tags s) True t [])) True False = Inr inclusive \<and>
            compile minify format s
              (map (\<lambda>d. name (tags s ! d)) (dependencies (tags s) False t [])) True False = Inr exclusive \<and>
            size_bytes (tags s' ! t) = int (length inclusive) - int (length exclusive)"
    by (simp add: measured_def)
  show ?thesis
  proof (intro conjI impI)
    show "\<exists>inclusive exclusive.
            compile minify format s
              (map (\<lambda>d. name (tags s ! d)) (dependencies (tags s) True t [])) True False = Inr inclusive \<and>
            compile minify format s
              (map (\<lambda>d. name (tags s ! d)) (dependencies (tags s) False t [])) True False = Inr exclusive \<and>
            size_bytes (tags s' ! t) = int (length inclusive) - int (length exclusive)"
      by (rule m)
  next
    assume "requiredTagNames (tags s ! t) = [] \<and> find_tag (tags s) (Some ''REQUIRED'') = None"
    then have "dependencies (tags s) True t [] = [t]" "dependencies (tags s) False t [] = []"
      using dependencies_no_requirements[OF assms(2)] by simp_all
    with m show "\<exists>inclusive exclusive.
               compile minify format s [name (tags s ! t)] True False = Inr inclusive \<and>
               compile minify format s [] True False = Inr exclusive \<and>
               size_bytes (tags s' ! t) = int (length inclusive) - int (length exclusive)"
      by simp
  qed
qed

theorem C2_witness:
  "measureTags Inr Inr one_tag_script =
     (Inr (one_tag_script\<lparr>tags := [(new_Tag (Some ''T''))\<lparr>description := ''thing'', size_bytes := 6\<rparr>]\<rparr>)
        :: unit + Script) \<and>
   0 < length (tags one_tag_script) \<and>
   requiredTagNames (tags one_tag_script ! 0) = [] \<and>
   find_tag (tags one_tag_script) (Some ''REQUIRED'') = None \<and>
   (\<exists>inclusive exclusive.
      compile Inr Inr one_tag_script [Some ''T''] True False = (Inr inclusive :: unit + string) \<and>
      compile Inr Inr one_tag_script [] True False = (Inr exclusive :: unit + string) \<and>
      6 = int (length inclusive) - int (length exclusive))"
proof -
  have m: "measureTags Inr Inr one_tag_script =
     (Inr (one_tag_script\<lparr>tags := [(new_Tag (Some ''T''))\<lparr>description := ''thing'', size_bytes := 6\<rparr>]\<rparr>)
        :: unit + Script)"
    by (simp add: measureTags_def measureTags_tag_def one_tag_script_parsed new_Tag_def compile_def
      compile_lines_def render_line_def dependencies_eval)
  have l: "0 < length (tags one_tag_script)" by (simp add: one_tag_script_parsed)
  have r: "requiredTagNames (tags one_tag_script ! 0) = []"
    "find_tag (tags one_tag_script) (Some ''REQUIRED'') = None"
    "name (tags one_tag_script ! 0) = Some ''T''"
    by (simp_all add: one_tag_script_parsed new_Tag_def)
  show ?thesis
    using C2_measureTags_sizes[OF m l] m l r by (simp add: new_Tag_def)
qed

text \<open>
  C4: the promise of \<^verbatim>\<open>loadExternal\<close> resolves once the fetch of every tag has settled,
  for every script, one with zero tags included. The counter is compared with the
  number of tags only after it has been incremented for a tag; for a script without
  tags the loop of the executor has no iteration, no fetch is started, and \<^verbatim>\<open>resolve\<close> is
  never called (\<open>loadExternal_zero_tags\<close>). For every script with at least one tag, the
  promise is resolved once all fetches have settled, whatever their outcomes and order
  (\<open>loadExternal_resolved_iff\<close>).
\<close>

theorem C4_zero_tags_never_resolves:
  "tags no_tag_script = [] \<and>
   resolved (loadExternal no_tag_script []) = False \<and>
   pending (loadExternal no_tag_script []) = [] \<and>
   tagsLoaded (loadExternal no_tag_script []) = 0"
  by (simp add: loadExternal_def no_tag_script_parsed)

end
